theory Spec2Isabelle
  imports Complex_Main
begin

section \<open>Timecard backend: data model\<close>

text \<open>
  The Go structs of \<^verbatim>\<open>main.go\<close> as records. A Go \<^verbatim>\<open>string\<close> is a \<^typ>\<open>string\<close>, a Go
  \<^verbatim>\<open>int\<close> is an \<^typ>\<open>int\<close> (the program only stores and copies these numbers), and a
  \<^verbatim>\<open>float64\<close> is a \<^typ>\<open>real\<close>: rounding of floating-point addition is not modelled.
  Two records share the field names \<^verbatim>\<open>JobCode\<close>, \<^verbatim>\<open>WeekStartDate\<close> and \<^verbatim>\<open>Entries\<close>, as
  the Go structs do; they are written with their record's name in front.
\<close>

record Job =
  JobCode :: string
  JobName :: string

record Entry =
  Date :: string
  JobCode :: string
  Hours :: real
  Overtime :: bool
  IsNightShift :: bool

record WeekData =
  WeekNumber :: int
  WeekStartDate :: string
  WeekLabel :: string
  Entries :: "Entry list"

record TimecardRequest =
  EmployeeName :: string
  PayPeriodNum :: int
  Year :: int
  WeekStartDate :: string
  WeekNumberLabel :: string
  Jobs :: "Job list"
  Entries :: "Entry list"
  Weeks :: "WeekData list"


datatype error =
  JSONError
  | ParseWeekStart
  | NoSheetsInTemplate
  | OpenFileError
  | StyleError
  | WriteError

section \<open>Entry normalisation\<close>



section \<open>Column assignment\<close>

text \<open>
  \<^verbatim>\<open>getUniqueJobNumbersForType\<close>: the loop over the entries carries the map \<^verbatim>\<open>seen\<close>
  (a missing key reads \<^verbatim>\<open>false\<close>) and the slice \<^verbatim>\<open>out\<close>.
\<close>

fun uniqueLoop :: "Entry list \<Rightarrow> bool \<Rightarrow> (string \<Rightarrow> bool) \<Rightarrow> string list \<Rightarrow> string list" where
  "uniqueLoop [] isOvertime seen out = out"
| "uniqueLoop (e # es) isOvertime seen out =
     (if Overtime e \<noteq> isOvertime then uniqueLoop es isOvertime seen out
      else
        (let key = (if IsNightShift e then ''N'' @ Entry.JobCode e else Entry.JobCode e)
         in if \<not> seen key
            then uniqueLoop es isOvertime (seen(key := True)) (out @ [key])
            else uniqueLoop es isOvertime seen out))"

definition getUniqueJobNumbersForType :: "Entry list \<Rightarrow> bool \<Rightarrow> string list" where
  "getUniqueJobNumbersForType entries isOvertime =
     uniqueLoop entries isOvertime (\<lambda>_. False) []"

text \<open>
  The composite key in the words of the specification:
  \<^verbatim>\<open>(isNightShift ? "N" : "") + jobCode\<close>. The source computes it inline, in
  \<^verbatim>\<open>getUniqueJobNumbersForType\<close> and in the aggregation loop of \<^verbatim>\<open>fillWeekSheet\<close>.
\<close>

definition compositeKey :: "Entry \<Rightarrow> string" where
  "compositeKey e = (if IsNightShift e then ''N'' else '''') @ Entry.JobCode e"

text \<open>The first-appearance order of the distinct elements of a sequence, in the words of
  the specification: an element is kept where it is first seen and dropped afterwards.\<close>

fun firstSeenOrder :: "'a list \<Rightarrow> 'a list" where
  "firstSeenOrder [] = []"
| "firstSeenOrder (x # xs) = x # firstSeenOrder (filter (\<lambda>y. y \<noteq> x) xs)"

section \<open>Time\<close>

text \<open>
  The part of Go's \<^verbatim>\<open>time\<close> package the program calls, after the package's
  documentation. A \<^verbatim>\<open>time.Time\<close> is an instant (seconds since 1970-01-01T00:00:00Z and
  nanoseconds within the second) together with the offset of its location east of UTC,
  in seconds; every location is a fixed offset, as \<^verbatim>\<open>time.Parse\<close> makes them when the
  offset is not the local zone's. The calendar is the proleptic Gregorian one.
\<close>

record Time =
  unixSec :: int
  nsec :: int
  zoneOffset :: int

text \<open>Days from 1970-01-01 to the given civil date, and back.\<close>

definition daysFromCivil :: "int \<Rightarrow> int \<Rightarrow> int \<Rightarrow> int" where
  "daysFromCivil y m d =
     (let y1 = (if m \<le> 2 then y - 1 else y);
          era = y1 div 400;
          yoe = y1 - era * 400;
          doy = (153 * (if m > 2 then m - 3 else m + 9) + 2) div 5 + d - 1;
          doe = yoe * 365 + yoe div 4 - yoe div 100 + doy
      in era * 146097 + doe - 719468)"

definition civilFromDays :: "int \<Rightarrow> int \<times> int \<times> int" where
  "civilFromDays z =
     (let z1 = z + 719468;
          era = z1 div 146097;
          doe = z1 - era * 146097;
          yoe = (doe - doe div 1460 + doe div 36524 - doe div 146096) div 365;
          doy = doe - (365 * yoe + yoe div 4 - yoe div 100);
          mp = (5 * doy + 2) div 153;
          d = doy - (153 * mp + 2) div 5 + 1;
          m = (if mp < 10 then mp + 3 else mp - 9)
      in (yoe + era * 400 + (if m \<le> 2 then 1 else 0), m, d))"

text \<open>\<^verbatim>\<open>time.Date(year, month, day, hour, min, sec, nsec, loc)\<close>: values outside their
  usual ranges are normalised (October 32 is November 1).\<close>

definition timeDate :: "int \<Rightarrow> int \<Rightarrow> int \<Rightarrow> int \<Rightarrow> int \<Rightarrow> int \<Rightarrow> int \<Rightarrow> int \<Rightarrow> Time" where
  "timeDate year month day hour minute sec ns loc =
     (let y = year + (month - 1) div 12;
          m = (month - 1) mod 12 + 1;
          days = daysFromCivil y m 1 + (day - 1);
          localSec = days * 86400 + hour * 3600 + minute * 60 + sec + ns div 1000000000
      in \<lparr>unixSec = localSec - loc, nsec = ns mod 1000000000, zoneOffset = loc\<rparr>)"

text \<open>\<^verbatim>\<open>t.Date()\<close> and \<^verbatim>\<open>t.Clock()\<close>, in the location of \<^verbatim>\<open>t\<close>.\<close>

definition dateOf :: "Time \<Rightarrow> int \<times> int \<times> int" where
  "dateOf t = civilFromDays ((unixSec t + zoneOffset t) div 86400)"

definition clockOf :: "Time \<Rightarrow> int \<times> int \<times> int" where
  "clockOf t =
     (let s = (unixSec t + zoneOffset t) mod 86400
      in (s div 3600, (s mod 3600) div 60, s mod 60))"

text \<open>\<^verbatim>\<open>t.AddDate(years, months, days)\<close>.\<close>

definition AddDate :: "Time \<Rightarrow> int \<Rightarrow> int \<Rightarrow> int \<Rightarrow> Time" where
  "AddDate t years months days =
     (case dateOf t of (year, month, day) \<Rightarrow>
        (case clockOf t of (hour, minute, sec) \<Rightarrow>
           timeDate (year + years) (month + months) (day + days) hour minute sec (nsec t)
             (zoneOffset t)))"

text \<open>Decimal digits of a natural number (\<^verbatim>\<open>%d\<close>), and padded with zeros on the left.\<close>

definition decimalDigits :: string where
  "decimalDigits = ''0123456789''"

definition digitChar :: "nat \<Rightarrow> char" where
  "digitChar d = decimalDigits ! d"

fun itoa :: "nat \<Rightarrow> string" where
  "itoa n =
     (if n < 10 then [digitChar n]
      else itoa (n div 10) @ [digitChar (n mod 10)])"

declare itoa.simps [simp del]

definition zeroPad :: "nat \<Rightarrow> nat \<Rightarrow> string" where
  "zeroPad w n = replicate (w - length (itoa n)) CHR ''0'' @ itoa n"

text \<open>\<^verbatim>\<open>t.Format("2006-01-02")\<close>.\<close>

definition formatDate :: "Time \<Rightarrow> string" where
  "formatDate t =
     (case dateOf t of (y, m, d) \<Rightarrow>
        (if y < 0 then ''-'' else '''') @ zeroPad 4 (nat \<bar>y\<bar>) @ ''-'' @
        zeroPad 2 (nat m) @ ''-'' @ zeroPad 2 (nat d))"

text \<open>
  \<^verbatim>\<open>t.Sub(u)\<close> is a \<^verbatim>\<open>time.Duration\<close>, a signed 64-bit count of nanoseconds: "if the
  result exceeds the maximum (or minimum) value that can be stored in a Duration, the
  maximum (or minimum) duration will be returned".
\<close>

definition maxDuration :: int where
  "maxDuration = 2 ^ 63 - 1"

definition minDuration :: int where
  "minDuration = - (2 ^ 63)"

definition nanosBetween :: "Time \<Rightarrow> Time \<Rightarrow> int" where
  "nanosBetween t u = (unixSec t - unixSec u) * 1000000000 + (nsec t - nsec u)"

definition Sub :: "Time \<Rightarrow> Time \<Rightarrow> int" where
  "Sub t u =
     (let d = nanosBetween t u
      in if d > maxDuration then maxDuration
         else if d < minDuration then minDuration
         else d)"

text \<open>\<^verbatim>\<open>d.Hours()\<close>: the duration as a number of hours.\<close>

definition DurationHours :: "int \<Rightarrow> real" where
  "DurationHours d = real_of_int d / 3600000000000"

text \<open>\<^verbatim>\<open>timeToExcelDate\<close>, with its local \<^verbatim>\<open>excelEpoch\<close>.\<close>

definition excelEpoch :: Time where
  "excelEpoch = timeDate 1899 12 30 0 0 0 0 0"

definition timeToExcelDate :: "Time \<Rightarrow> real" where
  "timeToExcelDate t = DurationHours (Sub t excelEpoch) / 24"


text \<open>
  \<^verbatim>\<open>time.Parse(time.RFC3339, s)\<close> is a parameter \<open>parse\<close> of the functions below, of type
  \<^typ>\<open>string \<Rightarrow> Time option\<close> (\<^term>\<open>None\<close> when Go returns an error). One instance, for
  running the model: the strings \<^verbatim>\<open>YYYY-MM-DDThh:mm:ssZ\<close> with every field in range.
\<close>

definition digitVal :: "char \<Rightarrow> int option" where
  "digitVal c =
     (if 48 \<le> (of_char c :: nat) \<and> (of_char c :: nat) \<le> 57
      then Some (int (of_char c) - 48) else None)"

fun digitsVal :: "string \<Rightarrow> int option" where
  "digitsVal [] = None"
| "digitsVal [c] = digitVal c"
| "digitsVal (c # cs) =
     (case (digitsVal (butlast (c # cs)), digitVal (last cs)) of
        (Some a, Some b) \<Rightarrow> Some (10 * a + b)
      | _ \<Rightarrow> None)"

definition daysIn :: "int \<Rightarrow> int \<Rightarrow> int" where
  "daysIn y m =
     daysFromCivil (if m = 12 then y + 1 else y) (if m = 12 then 1 else m + 1) 1
       - daysFromCivil y m 1"

definition parseUTC :: "string \<Rightarrow> Time option" where
  "parseUTC s =
     (if length s = 20 \<and> s ! 4 = CHR ''-'' \<and> s ! 7 = CHR ''-'' \<and> s ! 10 = CHR ''T'' \<and>
         s ! 13 = CHR '':'' \<and> s ! 16 = CHR '':'' \<and> s ! 19 = CHR ''Z''
      then
        (case (digitsVal (take 4 s), digitsVal (take 2 (drop 5 s)),
               digitsVal (take 2 (drop 8 s)), digitsVal (take 2 (drop 11 s)),
               digitsVal (take 2 (drop 14 s)), digitsVal (take 2 (drop 17 s))) of
           (Some y, Some m, Some d, Some hh, Some mm, Some ss) \<Rightarrow>
             (if 1 \<le> m \<and> m \<le> 12 \<and> 1 \<le> d \<and> d \<le> daysIn y m \<and> hh < 24 \<and> mm < 60 \<and> ss < 60
              then Some (timeDate y m d hh mm ss 0 0)
              else None)
         | _ \<Rightarrow> None)
      else None)"

section \<open>The workbook\<close>

text \<open>
  The \<^verbatim>\<open>excelize\<close> workbook as far as the program uses it: the ordered sheet names, the
  cell values by sheet name and cell address, the bordered ranges, and whether the cached
  values of formulas have been dropped. A value handed to \<^verbatim>\<open>SetCellValue\<close> is a string,
  an int or a float64. Every call is made with a sheet of the workbook and a well-formed
  address, where \<^verbatim>\<open>excelize\<close> does not fail; the program discards these errors.
\<close>

datatype cellValue = CellString string | CellInt int | CellFloat real

record File =
  SheetList :: "string list"
  Cells :: "string \<times> string \<Rightarrow> cellValue option"
  Borders :: "(string \<times> string \<times> string) list"
  LinkedValuesCleared :: bool

definition NewFile :: File where
  "NewFile = \<lparr>SheetList = [''Sheet1''], Cells = (\<lambda>_. None), Borders = [],
               LinkedValuesCleared = False\<rparr>"

definition GetSheetList :: "File \<Rightarrow> string list" where
  "GetSheetList f = SheetList f"

definition SetCellValue :: "File \<Rightarrow> string \<Rightarrow> string \<Rightarrow> cellValue \<Rightarrow> File" where
  "SetCellValue f sheet cell v = f\<lparr>Cells := (Cells f)((sheet, cell) \<mapsto> v)\<rparr>"

definition UpdateLinkedValue :: "File \<Rightarrow> File" where
  "UpdateLinkedValue f = f\<lparr>LinkedValuesCleared := True\<rparr>"

text \<open>\<^verbatim>\<open>applyBordersToRange\<close>: \<^verbatim>\<open>NewStyle\<close> then \<^verbatim>\<open>SetCellStyle\<close>; either error is
  returned to the caller, which only logs it.\<close>

definition applyBordersToRange :: "File \<Rightarrow> string \<Rightarrow> string \<Rightarrow> string \<Rightarrow> error + File" where
  "applyBordersToRange f sheet startCell endCell =
     Inr (f\<lparr>Borders := Borders f @ [(sheet, startCell, endCell)]\<rparr>)"

section \<open>Filling a week sheet\<close>

definition codeCols :: "string list" where
  "codeCols = [''C'', ''E'', ''G'', ''I'', ''K'', ''M'', ''O'', ''Q'', ''S'', ''U'', ''W'', ''Y'',
               ''AA'', ''AC'', ''AE'', ''AG'']"

definition jobCols :: "string list" where
  "jobCols = [''D'', ''F'', ''H'', ''J'', ''L'', ''N'', ''P'', ''R'', ''T'', ''V'', ''X'', ''Z'',
              ''AB'', ''AD'', ''AF'', ''AH'']"

text \<open>The job lookup by job number: a later job of the request replaces an earlier one with
  the same number.\<close>

definition buildJobMap :: "Job list \<Rightarrow> (string \<Rightarrow> Job option)" where
  "buildJobMap jobs = foldl (\<lambda>m j. m(Job.JobCode j \<mapsto> j)) (\<lambda>_. None) jobs"

definition HasPrefix :: "string \<Rightarrow> string \<Rightarrow> bool" where
  "HasPrefix s p = (take (length p) s = p)"

text \<open>
  The two header loops of \<^verbatim>\<open>fillWeekSheet\<close> differ in the row only (\<^verbatim>\<open>"4"\<close> for regular,
  \<^verbatim>\<open>"15"\<close> for overtime): one function, with the row and the loop index \<open>i\<close> as arguments.
\<close>

fun fillHeaders ::
  "(string \<Rightarrow> Job option) \<Rightarrow> string \<Rightarrow> string \<Rightarrow> nat \<Rightarrow> string list \<Rightarrow> File \<Rightarrow> File" where
  "fillHeaders jobMap sheet row i [] f = f"
| "fillHeaders jobMap sheet row i (key # keys) f =
     (if i \<ge> length codeCols then f
      else
        (let night = HasPrefix key ''N'';
             actual = (if night then drop 1 key else key);
             f' = (case jobMap actual of
                     None \<Rightarrow> f
                   | Some job \<Rightarrow>
                       (let code = (if night then ''N'' @ JobName job else JobName job);
                            g = SetCellValue f sheet (codeCols ! i @ row) (CellString code)
                        in SetCellValue g sheet (jobCols ! i @ row) (CellString actual)))
         in fillHeaders jobMap sheet row (Suc i) keys f'))"

text \<open>
  The aggregation loop: \<^verbatim>\<open>regMap\<close> and \<^verbatim>\<open>otMap\<close> map a date to a map from key to hours.
  \<^verbatim>\<open>m[date][key] += h\<close> creates the inner map when it is missing and reads a missing key
  as \<^verbatim>\<open>0\<close>.
\<close>

type_synonym hoursMap = "string \<Rightarrow> (string \<Rightarrow> real option) option"

definition addHours :: "hoursMap \<Rightarrow> string \<Rightarrow> string \<Rightarrow> real \<Rightarrow> hoursMap" where
  "addHours m date key h =
     (let inner = (case m date of None \<Rightarrow> (\<lambda>_. None) | Some hours \<Rightarrow> hours)
      in m(date \<mapsto> inner(key \<mapsto> (case inner key of None \<Rightarrow> 0 | Some v \<Rightarrow> v) + h)))"

fun aggregate ::
  "(string \<Rightarrow> Time option) \<Rightarrow> Entry list \<Rightarrow> hoursMap \<times> hoursMap \<Rightarrow> hoursMap \<times> hoursMap" where
  "aggregate parse [] (regMap, otMap) = (regMap, otMap)"
| "aggregate parse (e # es) (regMap, otMap) =
     (case parse (Date e) of
        None \<Rightarrow> aggregate parse es (regMap, otMap)
      | Some t \<Rightarrow>
          (let date = formatDate t;
               key = (if IsNightShift e then ''N'' @ Entry.JobCode e else Entry.JobCode e)
           in if Overtime e
              then aggregate parse es (regMap, addHours otMap date key (Hours e))
              else aggregate parse es (addHours regMap date key (Hours e), otMap)))"

text \<open>The inner loop over the keys of a block, for one day: \<open>hours\<close> is the day's map,
  \<open>row\<close> the day's row in the block.\<close>

fun fillHours ::
  "(string \<Rightarrow> real option) \<Rightarrow> string \<Rightarrow> nat \<Rightarrow> nat \<Rightarrow> string list \<Rightarrow> File \<Rightarrow> File" where
  "fillHours hours sheet row i [] f = f"
| "fillHours hours sheet row i (key # keys) f =
     (if i \<ge> length codeCols then f
      else
        (let f' = (case hours key of
                     None \<Rightarrow> f
                   | Some v \<Rightarrow>
                       (if v \<noteq> 0
                        then SetCellValue f sheet (codeCols ! i @ itoa row) (CellFloat v)
                        else f))
         in fillHours hours sheet row (Suc i) keys f'))"

text \<open>The body of the loop over the seven days, and the loop.\<close>

definition fillDay ::
  "Time \<Rightarrow> hoursMap \<Rightarrow> hoursMap \<Rightarrow> string list \<Rightarrow> string list \<Rightarrow> string \<Rightarrow> nat \<Rightarrow> File \<Rightarrow> File" where
  "fillDay weekStart regMap otMap regularKeys overtimeKeys sheet d f =
     (let day = AddDate weekStart 0 0 (int d);
          dateKey = formatDate day;
          dateSerial = timeToExcelDate day;
          rowReg = 5 + d;
          rowOT = 16 + d;
          f1 = SetCellValue f sheet (''B'' @ itoa rowReg) (CellFloat dateSerial);
          f2 = SetCellValue f1 sheet (''B'' @ itoa rowOT) (CellFloat dateSerial);
          f3 = (case regMap dateKey of
                  None \<Rightarrow> f2
                | Some hours \<Rightarrow> fillHours hours sheet rowReg 0 regularKeys f2)
      in (case otMap dateKey of
            None \<Rightarrow> f3
          | Some hours \<Rightarrow> fillHours hours sheet rowOT 0 overtimeKeys f3))"

function fillDays ::
  "Time \<Rightarrow> hoursMap \<Rightarrow> hoursMap \<Rightarrow> string list \<Rightarrow> string list \<Rightarrow> string \<Rightarrow> nat \<Rightarrow> File \<Rightarrow> File" where
  "fillDays weekStart regMap otMap regularKeys overtimeKeys sheet d f =
     (if d < 7
      then fillDays weekStart regMap otMap regularKeys overtimeKeys sheet (d + 1)
             (fillDay weekStart regMap otMap regularKeys overtimeKeys sheet d f)
      else f)"
  by pat_completeness auto
termination
  by (relation "measure (\<lambda>(weekStart, regMap, otMap, regularKeys, overtimeKeys, sheet, d, f). 7 - d)")
    auto

declare fillDays.simps [simp del]

text \<open>\<^verbatim>\<open>fillWeekSheet\<close>. The week number is only logged.\<close>

definition fillWeekSheet ::
  "(string \<Rightarrow> Time option) \<Rightarrow> File \<Rightarrow> string \<Rightarrow> TimecardRequest \<Rightarrow> WeekData \<Rightarrow> int \<Rightarrow> error + File" where
  "fillWeekSheet parse f sheet req week weekNum =
     (case parse (WeekData.WeekStartDate week) of
        None \<Rightarrow> Inl ParseWeekStart
      | Some weekStart \<Rightarrow>
          (let f1 = SetCellValue f sheet ''M2'' (CellString (EmployeeName req));
               f2 = SetCellValue f1 sheet ''AJ2'' (CellInt (PayPeriodNum req));
               f3 = SetCellValue f2 sheet ''AJ3'' (CellInt (Year req));
               f4 = SetCellValue f3 sheet ''B4'' (CellFloat (timeToExcelDate weekStart));
               f5 = SetCellValue f4 sheet ''AJ4'' (CellString (WeekLabel week));
               jobMap = buildJobMap (Jobs req);
               regularKeys = getUniqueJobNumbersForType (WeekData.Entries week) False;
               overtimeKeys = getUniqueJobNumbersForType (WeekData.Entries week) True;
               f6 = (if length regularKeys > 0
                     then fillHeaders jobMap sheet ''4'' 0 regularKeys f5 else f5);
               f7 = (if length overtimeKeys > 0
                     then fillHeaders jobMap sheet ''15'' 0 overtimeKeys f6 else f6);
               maps = aggregate parse (WeekData.Entries week) (\<lambda>_. None, \<lambda>_. None);
               f8 = fillDays weekStart (fst maps) (snd maps) regularKeys overtimeKeys sheet 0 f7;
               f9 = (case applyBordersToRange f8 sheet ''A4'' ''AJ12'' of
                       Inl err \<Rightarrow> f8 | Inr g \<Rightarrow> g);
               f10 = (case applyBordersToRange f9 sheet ''A15'' ''AJ24'' of
                        Inl err \<Rightarrow> f9 | Inr g \<Rightarrow> g)
           in Inr f10))"

section \<open>Generating the workbook\<close>

text \<open>
  \<^verbatim>\<open>generateBasicExcelFile\<close> and \<^verbatim>\<open>generateExcelFile\<close>. The outcome of
  \<^verbatim>\<open>excelize.OpenFile("template.xlsx")\<close> is the argument \<open>opened\<close>, and
  \<^verbatim>\<open>f.WriteToBuffer()\<close> is the argument \<open>WriteToBuffer\<close>, which may fail.
\<close>

definition generateBasicExcelFile :: "(File \<Rightarrow> error + 'b) \<Rightarrow> TimecardRequest \<Rightarrow> error + 'b" where
  "generateBasicExcelFile WriteToBuffer req =
     (let f = NewFile;
          sheet = ''Sheet1'';
          f1 = SetCellValue f sheet ''A1'' (CellString ''Employee:'');
          f2 = SetCellValue f1 sheet ''B1'' (CellString (EmployeeName req))
      in (case WriteToBuffer f2 of
            Inl err \<Rightarrow> Inl err
          | Inr buf \<Rightarrow> Inr buf))"

definition generateExcelFile ::
  "(string \<Rightarrow> Time option) \<Rightarrow> error + File \<Rightarrow> (File \<Rightarrow> error + 'b) \<Rightarrow> TimecardRequest \<Rightarrow> error + 'b" where
  "generateExcelFile parse opened WriteToBuffer req =
     (case opened of
        Inl err \<Rightarrow> generateBasicExcelFile WriteToBuffer req
      | Inr f \<Rightarrow>
          (let sheets = GetSheetList f
           in if length sheets = 0 then Inl NoSheetsInTemplate
              else
                (let f1 = (if length (Weeks req) > 0
                           then (case fillWeekSheet parse f (sheets ! 0) req (Weeks req ! 0) 1 of
                                   Inl err \<Rightarrow> f | Inr g \<Rightarrow> g)
                           else f);
                     f2 = (if length sheets > 1 \<and> length (Weeks req) > 1
                           then (case fillWeekSheet parse f1 (sheets ! 1) req (Weeks req ! 1) 2 of
                                   Inl err \<Rightarrow> f1 | Inr g \<Rightarrow> g)
                           else f1);
                     f3 = UpdateLinkedValue f2
                 in (case WriteToBuffer f3 of
                       Inl err \<Rightarrow> Inl err
                     | Inr buf \<Rightarrow> Inr buf))))"

section \<open>Reading the results\<close>

text \<open>
  How the data loop of \<^verbatim>\<open>fillWeekSheet\<close> reads an aggregated value:
  \<^verbatim>\<open>hours := regMap[dateKey]\<close>, \<^verbatim>\<open>hours != nil\<close>, then \<^verbatim>\<open>v, ok := hours[key]\<close>.
\<close>

definition lookupHours :: "hoursMap \<Rightarrow> string \<Rightarrow> string \<Rightarrow> real option" where
  "lookupHours m date key = (case m date of None \<Rightarrow> None | Some hours \<Rightarrow> hours key)"

text \<open>An entry's date parses and falls on the calendar day \<open>day\<close> (written
  \<^verbatim>\<open>YYYY-MM-DD\<close>).\<close>

definition fallsOn :: "(string \<Rightarrow> Time option) \<Rightarrow> Entry \<Rightarrow> string \<Rightarrow> bool" where
  "fallsOn parse e day =
     (case parse (Date e) of None \<Rightarrow> False | Some t \<Rightarrow> formatDate t = day)"

text \<open>The hours, in input order, of the entries of a block that fall on a day and have
  a given composite key.\<close>

definition bucketHours ::
  "(string \<Rightarrow> Time option) \<Rightarrow> Entry list \<Rightarrow> bool \<Rightarrow> string \<Rightarrow> string \<Rightarrow> real list" where
  "bucketHours parse entries isOvertime day key =
     map Hours
       (filter (\<lambda>e. Overtime e = isOvertime \<and> fallsOn parse e day \<and> compositeKey e = key)
          entries)"

text \<open>What \<^verbatim>\<open>+=\<close> makes of a bucket that starts at \<open>v0\<close> (\<^term>\<open>None\<close> when the key is
  missing) after the hours \<open>hs\<close>.\<close>

definition accumulate :: "real option \<Rightarrow> real list \<Rightarrow> real option" where
  "accumulate v0 hs =
     (if hs = [] then v0 else Some ((case v0 of None \<Rightarrow> 0 | Some v \<Rightarrow> v) + sum_list hs))"

text \<open>A column name has no decimal digit.\<close>

definition noDigits :: "string \<Rightarrow> bool" where
  "noDigits s = (\<forall>c \<in> set s. c \<notin> set decimalDigits)"

text \<open>The job number and the label the header loop derives from a key: a key that starts
  with \<^verbatim>\<open>N\<close> is looked up without its first character and labelled with an \<^verbatim>\<open>N\<close>.\<close>

definition headerJobNumber :: "string \<Rightarrow> string" where
  "headerJobNumber key = (if HasPrefix key ''N'' then drop 1 key else key)"

definition headerLabel :: "string \<Rightarrow> Job \<Rightarrow> string" where
  "headerLabel key job = (if HasPrefix key ''N'' then ''N'' @ JobName job else JobName job)"

section \<open>Sample inputs\<close>





text \<open>A week starting on Monday 2024-02-26: two regular day-shift entries of job 29699 on
  Monday, an overtime night-shift entry of the same job on Tuesday, an entry with a bad
  date, an entry of a job the request does not list, and an entry of zero hours.\<close>

definition sampleEntries :: "Entry list" where
  "sampleEntries =
     [\<lparr>Date = ''2024-02-26T08:00:00Z'', JobCode = ''29699'', Hours = 8, Overtime = False,
       IsNightShift = False\<rparr>,
      \<lparr>Date = ''2024-02-27T22:00:00Z'', JobCode = ''29699'', Hours = 3, Overtime = True,
       IsNightShift = True\<rparr>,
      \<lparr>Date = ''2024-02-26T18:00:00Z'', JobCode = ''29699'', Hours = 3 / 2, Overtime = False,
       IsNightShift = False\<rparr>,
      \<lparr>Date = ''yesterday'', JobCode = ''777'', Hours = 4, Overtime = False,
       IsNightShift = False\<rparr>,
      \<lparr>Date = ''2024-02-28T08:00:00Z'', JobCode = ''555'', Hours = 2, Overtime = False,
       IsNightShift = False\<rparr>,
      \<lparr>Date = ''2024-02-29T08:00:00Z'', JobCode = ''29699'', Hours = 0, Overtime = False,
       IsNightShift = False\<rparr>]"

definition sampleWeek :: WeekData where
  "sampleWeek = \<lparr>WeekNumber = 1, WeekStartDate = ''2024-02-26T00:00:00Z'', WeekLabel = ''Week 1'',
                  Entries = sampleEntries\<rparr>"

definition badWeek :: WeekData where
  "badWeek = \<lparr>WeekNumber = 1, WeekStartDate = ''2024-02-26'', WeekLabel = ''Week 1'',
               Entries = sampleEntries\<rparr>"

definition sampleRequest :: TimecardRequest where
  "sampleRequest =
     \<lparr>EmployeeName = ''Al'', PayPeriodNum = 5, Year = 2024, WeekStartDate = '''',
      WeekNumberLabel = '''', Jobs = [\<lparr>Job.JobCode = ''29699'', JobName = ''201''\<rparr>],
      Entries = [], Weeks = [sampleWeek]\<rparr>"

text \<open>A request whose first week has a start date without a time, and a second week
  that parses.\<close>

definition badFirstWeekRequest :: TimecardRequest where
  "badFirstWeekRequest = sampleRequest\<lparr>Weeks := [badWeek, sampleWeek]\<rparr>"

text \<open>Templates: two empty sheets; no sheet at all.\<close>

definition sampleTemplate :: File where
  "sampleTemplate = \<lparr>SheetList = [''Week 1'', ''Week 2''], Cells = (\<lambda>_. None), Borders = [],
                      LinkedValuesCleared = False\<rparr>"

definition emptyTemplate :: File where
  "emptyTemplate = \<lparr>SheetList = [], Cells = (\<lambda>_. None), Borders = [],
                     LinkedValuesCleared = False\<rparr>"

text \<open>The five cells of the heading of a week sheet, as \<^verbatim>\<open>fillWeekSheet\<close> sets them first,
  and their addresses.\<close>

definition weekInfo :: "File \<Rightarrow> string \<Rightarrow> TimecardRequest \<Rightarrow> WeekData \<Rightarrow> Time \<Rightarrow> File" where
  "weekInfo f sheet req week weekStart =
     SetCellValue
       (SetCellValue
          (SetCellValue
             (SetCellValue
                (SetCellValue f sheet ''M2'' (CellString (EmployeeName req)))
                sheet ''AJ2'' (CellInt (PayPeriodNum req)))
             sheet ''AJ3'' (CellInt (Year req)))
          sheet ''B4'' (CellFloat (timeToExcelDate weekStart)))
       sheet ''AJ4'' (CellString (WeekLabel week))"

definition infoCells :: "string set" where
  "infoCells = {''M2'', ''AJ2'', ''AJ3'', ''B4'', ''AJ4''}"

section \<open>Properties of the column assignment\<close>

lemma inline_key_eq:
  "(if IsNightShift e then ''N'' @ Entry.JobCode e else Entry.JobCode e) = compositeKey e"
  by (simp add: compositeKey_def)

lemma length_codeCols: "length codeCols = 16"
  by (simp add: codeCols_def)

lemma length_jobCols: "length jobCols = 16"
  by (simp add: jobCols_def)

lemma set_firstSeenOrder: "set (firstSeenOrder xs) = set xs"
  by (induction xs rule: firstSeenOrder.induct) auto

lemma distinct_firstSeenOrder: "distinct (firstSeenOrder xs)"
  by (induction xs rule: firstSeenOrder.induct) (auto simp: set_firstSeenOrder)

lemma firstSeenOrder_snoc:
  "firstSeenOrder (xs @ [x]) =
     (if x \<in> set xs then firstSeenOrder xs else firstSeenOrder xs @ [x])"
  by (induction xs rule: firstSeenOrder.induct) auto

lemma filter_unseen_update:
  "filter (\<lambda>y. y \<noteq> k) (filter (\<lambda>k. \<not> seen k) ks) =
   filter (\<lambda>k'. \<not> (seen(k := True)) k') ks"
  by (induction ks) auto

text \<open>The loop invariant of \<^verbatim>\<open>getUniqueJobNumbersForType\<close>: what is appended to \<open>out\<close> is
  the first-seen order of the keys of the block that \<open>seen\<close> does not hold yet.\<close>

lemma uniqueLoop_firstSeen:
  "uniqueLoop es ot seen out =
     out @ firstSeenOrder (filter (\<lambda>k. \<not> seen k)
                             (map compositeKey (filter (\<lambda>e. Overtime e = ot) es)))"
proof (induction es arbitrary: seen out)
  case Nil
  show ?case by simp
next
  case (Cons e es)
  let ?k = "compositeKey e"
  let ?ks = "map compositeKey (filter (\<lambda>e. Overtime e = ot) es)"
  show ?case
  proof (cases "Overtime e = ot")
    case False
    then show ?thesis using Cons.IH [of seen out] by simp
  next
    case ot: True
    show ?thesis
    proof (cases "seen ?k")
      case True
      then show ?thesis using ot Cons.IH [of seen out] by (simp add: inline_key_eq)
    next
      case False
      have "uniqueLoop (e # es) ot seen out = uniqueLoop es ot (seen(?k := True)) (out @ [?k])"
        using ot False by (simp add: inline_key_eq Let_def)
      also have "\<dots> = (out @ [?k]) @ firstSeenOrder (filter (\<lambda>k'. \<not> (seen(?k := True)) k') ?ks)"
        by (rule Cons.IH)
      also have "\<dots> = out @ firstSeenOrder (?k # filter (\<lambda>k. \<not> seen k) ?ks)"
        by (simp only: firstSeenOrder.simps filter_unseen_update append_assoc append.simps)
      also have "?k # filter (\<lambda>k. \<not> seen k) ?ks =
                 filter (\<lambda>k. \<not> seen k) (map compositeKey (filter (\<lambda>e. Overtime e = ot) (e # es)))"
        using ot False by simp
      finally show ?thesis .
    qed
  qed
qed

lemma getUnique_firstSeen:
  "getUniqueJobNumbersForType entries ot =
     firstSeenOrder (map compositeKey (filter (\<lambda>e. Overtime e = ot) entries))"
  by (simp add: getUniqueJobNumbersForType_def uniqueLoop_firstSeen)

lemma distinct_getUnique: "distinct (getUniqueJobNumbersForType entries ot)"
  by (simp add: getUnique_firstSeen distinct_firstSeenOrder)

lemma set_getUnique:
  "set (getUniqueJobNumbersForType entries ot) =
     compositeKey ` {e \<in> set entries. Overtime e = ot}"
  by (simp add: getUnique_firstSeen set_firstSeenOrder)





section \<open>Properties of the aggregation\<close>

lemma lookupHours_empty: "lookupHours (\<lambda>_. None) day key = None"
  by (simp add: lookupHours_def)

lemma lookupHours_addHours:
  "lookupHours (addHours m d k h) d' k' =
     (if d' = d \<and> k' = k
      then Some ((case lookupHours m d k of None \<Rightarrow> 0 | Some v \<Rightarrow> v) + h)
      else lookupHours m d' k')"
  by (auto simp: lookupHours_def addHours_def Let_def split: option.splits)

lemma accumulate_Nil: "accumulate v0 [] = v0"
  by (simp add: accumulate_def)

lemma accumulate_Cons:
  "accumulate v0 (h # hs) = accumulate (Some ((case v0 of None \<Rightarrow> 0 | Some v \<Rightarrow> v) + h)) hs"
  by (simp add: accumulate_def)

lemma accumulate_None:
  "accumulate None hs = (if hs = [] then None else Some (sum_list hs))"
  by (simp add: accumulate_def)

text \<open>The loop invariant of the aggregation: each bucket of each map is what it was,
  followed by the hours of the matching entries.\<close>

lemma aggregate_lookup:
  "lookupHours (fst (aggregate parse es (reg, ot))) day key =
     accumulate (lookupHours reg day key) (bucketHours parse es False day key)
   \<and> lookupHours (snd (aggregate parse es (reg, ot))) day key =
     accumulate (lookupHours ot day key) (bucketHours parse es True day key)"
proof (induction es arbitrary: reg ot)
  case Nil
  show ?case by (simp add: accumulate_def bucketHours_def)
next
  case (Cons e es)
  show ?case
  proof (cases "parse (Date e)")
    case None
    then show ?thesis using Cons.IH [of reg ot]
      by (simp add: bucketHours_def fallsOn_def)
  next
    case (Some t)
    show ?thesis
    proof (cases "Overtime e")
      case True
      have step: "aggregate parse (e # es) (reg, ot) =
                  aggregate parse es (reg, addHours ot (formatDate t) (compositeKey e) (Hours e))"
        using Some True by (simp add: inline_key_eq Let_def)
      show ?thesis
        unfolding step
        using Cons.IH [of reg "addHours ot (formatDate t) (compositeKey e) (Hours e)"] Some True
        by (auto simp: bucketHours_def fallsOn_def lookupHours_addHours accumulate_Cons)
    next
      case False
      have step: "aggregate parse (e # es) (reg, ot) =
                  aggregate parse es (addHours reg (formatDate t) (compositeKey e) (Hours e), ot)"
        using Some False by (simp add: inline_key_eq Let_def)
      show ?thesis
        unfolding step
        using Cons.IH [of "addHours reg (formatDate t) (compositeKey e) (Hours e)" ot] Some False
        by (auto simp: bucketHours_def fallsOn_def lookupHours_addHours accumulate_Cons)
    qed
  qed
qed

lemma aggregate_regular:
  "lookupHours (fst (aggregate parse es (\<lambda>_. None, \<lambda>_. None))) day key =
     (if bucketHours parse es False day key = [] then None
      else Some (sum_list (bucketHours parse es False day key)))"
  using aggregate_lookup [of parse es "\<lambda>_. None" "\<lambda>_. None" day key]
  by (simp add: lookupHours_empty accumulate_None)

lemma aggregate_overtime:
  "lookupHours (snd (aggregate parse es (\<lambda>_. None, \<lambda>_. None))) day key =
     (if bucketHours parse es True day key = [] then None
      else Some (sum_list (bucketHours parse es True day key)))"
  using aggregate_lookup [of parse es "\<lambda>_. None" "\<lambda>_. None" day key]
  by (simp add: lookupHours_empty accumulate_None)



section \<open>Properties of the entry normalisation\<close>



section \<open>Properties of the date serial\<close>







section \<open>Properties of the template handling\<close>

text \<open>
  Claim C4, as stated, fails for a template that opens with no sheet:
  \<^verbatim>\<open>generateExcelFile\<close> returns the error "no sheets in template", not the basic
  workbook.
\<close>

theorem zero_sheets_is_an_error_counterexample:
  "generateExcelFile parseUTC (Inr emptyTemplate) Inr sampleRequest =
     (Inl NoSheetsInTemplate :: error + File)
   \<and> generateExcelFile parseUTC (Inr emptyTemplate) Inr sampleRequest \<noteq>
       (generateBasicExcelFile Inr sampleRequest :: error + File)"
  by (simp add: generateExcelFile_def generateBasicExcelFile_def GetSheetList_def
      emptyTemplate_def Let_def)

text \<open>
  Claim C4, amended. When the template file cannot be opened, \<^verbatim>\<open>generateExcelFile\<close> returns
  what serialising the basic workbook returns: one sheet \<^verbatim>\<open>Sheet1\<close> with \<^verbatim>\<open>Employee:\<close> in A1
  and the employee name in B1. When the template opens and has no sheet, it returns the
  error "no sheets in template".
\<close>

theorem missing_template_falls_back:
  "generateExcelFile parse (Inl err) WriteToBuffer req =
     WriteToBuffer
       \<lparr>SheetList = [''Sheet1''],
        Cells = (\<lambda>_. None)((''Sheet1'', ''A1'') \<mapsto> CellString ''Employee:'',
                              (''Sheet1'', ''B1'') \<mapsto> CellString (EmployeeName req)),
        Borders = [], LinkedValuesCleared = False\<rparr>
   \<and> (GetSheetList f = [] \<longrightarrow>
        generateExcelFile parse (Inr f) WriteToBuffer req = Inl NoSheetsInTemplate)"
  by (cases "WriteToBuffer
       \<lparr>SheetList = [''Sheet1''],
        Cells = (\<lambda>_. None)((''Sheet1'', ''A1'') \<mapsto> CellString ''Employee:'',
                              (''Sheet1'', ''B1'') \<mapsto> CellString (EmployeeName req)),
        Borders = [], LinkedValuesCleared = False\<rparr>")
     (simp_all add: generateExcelFile_def generateBasicExcelFile_def NewFile_def
        SetCellValue_def Let_def)

theorem missing_template_falls_back_witness:
  "GetSheetList emptyTemplate = []
   \<and> generateExcelFile parseUTC (Inr emptyTemplate) Inr sampleRequest =
       (Inl NoSheetsInTemplate :: error + File)"
proof -
  have "GetSheetList emptyTemplate = []"
    by (simp add: GetSheetList_def emptyTemplate_def)
  then show ?thesis
    using missing_template_falls_back [of parseUTC OpenFileError Inr sampleRequest emptyTemplate]
    by blast
qed

section \<open>Cell addresses\<close>

lemma distinct_decimalDigits: "distinct decimalDigits"
  by (simp add: decimalDigits_def)

lemma length_decimalDigits: "length decimalDigits = 10"
  by (simp add: decimalDigits_def)

lemma digitChar_in_digits: "n < 10 \<Longrightarrow> digitChar n \<in> set decimalDigits"
  unfolding digitChar_def by (rule nth_mem) (simp add: length_decimalDigits)

lemma digitChar_inj: "a < 10 \<Longrightarrow> b < 10 \<Longrightarrow> digitChar a = digitChar b \<Longrightarrow> a = b"
  using nth_eq_iff_index_eq [OF distinct_decimalDigits, of a b]
  by (simp add: digitChar_def length_decimalDigits)

lemma itoa_small: "n < 10 \<Longrightarrow> itoa n = [digitChar n]"
  by (subst itoa.simps) simp

lemma itoa_large: "\<not> n < 10 \<Longrightarrow> itoa n = itoa (n div 10) @ [digitChar (n mod 10)]"
  by (subst itoa.simps) simp

lemma itoa_nonempty: "itoa n \<noteq> []"
  by (cases "n < 10") (simp_all add: itoa_small itoa_large)

lemma itoa_digits: "c \<in> set (itoa n) \<Longrightarrow> c \<in> set decimalDigits"
proof (induction n arbitrary: c rule: itoa.induct)
  case (1 n)
  show ?case
  proof (cases "n < 10")
    case True
    with "1.prems" have "c = digitChar n" by (simp add: itoa_small)
    with True show ?thesis by (simp add: digitChar_in_digits)
  next
    case False
    with "1.prems" have "c \<in> set (itoa (n div 10)) \<or> c = digitChar (n mod 10)"
      by (auto simp: itoa_large)
    then show ?thesis
    proof
      assume "c \<in> set (itoa (n div 10))"
      then show ?thesis by (rule "1.IH" [OF False])
    next
      assume "c = digitChar (n mod 10)"
      then show ?thesis by (simp add: digitChar_in_digits)
    qed
  qed
qed

lemma itoa_inj: "itoa m = itoa n \<Longrightarrow> m = n"
proof (induction m arbitrary: n rule: itoa.induct)
  case (1 m)
  show ?case
  proof (cases "m < 10")
    case m: True
    show ?thesis
    proof (cases "n < 10")
      case True
      with "1.prems" m show ?thesis by (simp add: itoa_small digitChar_inj)
    next
      case False
      with "1.prems" m show ?thesis using itoa_nonempty [of "n div 10"]
        by (simp add: itoa_small itoa_large)
    qed
  next
    case m: False
    show ?thesis
    proof (cases "n < 10")
      case True
      with "1.prems" m show ?thesis using itoa_nonempty [of "m div 10"]
        by (simp add: itoa_small itoa_large)
    next
      case False
      from "1.prems" m False have a: "itoa (m div 10) = itoa (n div 10)"
        and b: "digitChar (m mod 10) = digitChar (n mod 10)" by (simp_all add: itoa_large)
      from a have "m div 10 = n div 10" by (rule "1.IH" [OF m])
      moreover from b have "m mod 10 = n mod 10" by (simp add: digitChar_inj)
      ultimately have "m div 10 * 10 + m mod 10 = n div 10 * 10 + n mod 10" by simp
      then show ?thesis by (simp only: div_mult_mod_eq)
    qed
  qed
qed

lemma takeWhile_col:
  assumes "\<forall>c \<in> set a. c \<notin> set decimalDigits"
  shows "takeWhile (\<lambda>c. c \<notin> set decimalDigits) (a @ itoa r) = a"
proof -
  obtain x xs where x: "itoa r = x # xs" using itoa_nonempty [of r] by (cases "itoa r") auto
  then have "x \<in> set decimalDigits" using itoa_digits [of x r] by simp
  with x have "takeWhile (\<lambda>c. c \<notin> set decimalDigits) (itoa r) = []" by simp
  with assms show ?thesis by (simp add: takeWhile_append2)
qed

lemma address_inj:
  assumes "\<forall>c \<in> set a. c \<notin> set decimalDigits" and "\<forall>c \<in> set b. c \<notin> set decimalDigits"
    and "a @ itoa r = b @ itoa r'"
  shows "a = b \<and> r = r'"
proof -
  have "a = takeWhile (\<lambda>c. c \<notin> set decimalDigits) (a @ itoa r)"
    by (simp only: takeWhile_col [OF assms(1)])
  also have "\<dots> = takeWhile (\<lambda>c. c \<notin> set decimalDigits) (b @ itoa r')"
    by (simp only: assms(3))
  also have "\<dots> = b" by (simp only: takeWhile_col [OF assms(2)])
  finally have "a = b" .
  with assms(3) show ?thesis by (simp add: itoa_inj)
qed

lemma Cells_SetCellValue:
  "Cells (SetCellValue f s c v) (s', c') = (if s' = s \<and> c' = c then Some v else Cells f (s', c'))"
  by (simp add: SetCellValue_def)

lemma noDigits_all_cols: "\<forall>col \<in> set (codeCols @ jobCols). noDigits col"
  by (simp add: codeCols_def jobCols_def noDigits_def decimalDigits_def)

lemma noDigits_codeCols: "k < 16 \<Longrightarrow> noDigits (codeCols ! k)"
  using noDigits_all_cols nth_mem [of k codeCols] by (simp add: length_codeCols)

lemma noDigits_jobCols: "k < 16 \<Longrightarrow> noDigits (jobCols ! k)"
  using noDigits_all_cols nth_mem [of k jobCols] by (simp add: length_jobCols)

lemma distinct_all_cols: "distinct (codeCols @ jobCols)"
  by (simp add: codeCols_def jobCols_def)

lemma codeCols_inj: "i < 16 \<Longrightarrow> k < 16 \<Longrightarrow> codeCols ! i = codeCols ! k \<Longrightarrow> i = k"
  using distinct_all_cols nth_eq_iff_index_eq [of codeCols i k] by (simp add: length_codeCols)

lemma jobCols_inj: "i < 16 \<Longrightarrow> k < 16 \<Longrightarrow> jobCols ! i = jobCols ! k \<Longrightarrow> i = k"
  using distinct_all_cols nth_eq_iff_index_eq [of jobCols i k] by (simp add: length_jobCols)

lemma codeCols_not_jobCols: "i < 16 \<Longrightarrow> k < 16 \<Longrightarrow> codeCols ! i \<noteq> jobCols ! k"
proof -
  assume "i < 16" "k < 16"
  then have "codeCols ! i \<in> set codeCols" "jobCols ! k \<in> set jobCols"
    by (simp_all add: length_codeCols length_jobCols)
  with distinct_all_cols show ?thesis by auto
qed

lemma address_eq_iff:
  "noDigits a \<Longrightarrow> noDigits b \<Longrightarrow> (a @ itoa r = b @ itoa r') = (a = b \<and> r = r')"
  using address_inj [of a b r r'] by (auto simp: noDigits_def)

text \<open>The data loop of one day.\<close>

lemma fillHours_frame:
  "s \<noteq> sheet \<or> (\<forall>k. i \<le> k \<and> k < 16 \<longrightarrow> c \<noteq> codeCols ! k @ itoa row) \<Longrightarrow>
   Cells (fillHours hours sheet row i keys f) (s, c) = Cells f (s, c)"
proof (induction keys arbitrary: i f)
  case Nil
  show ?case by simp
next
  case (Cons key keys)
  show ?case
  proof (cases "i \<ge> 16")
    case True
    then show ?thesis by (simp add: length_codeCols)
  next
    case False
    let ?f' = "(case hours key of None \<Rightarrow> f
                | Some v \<Rightarrow> if v \<noteq> 0
                    then SetCellValue f sheet (codeCols ! i @ itoa row) (CellFloat v) else f)"
    have step: "fillHours hours sheet row i (key # keys) f = fillHours hours sheet row (Suc i) keys ?f'"
      using False by (simp add: length_codeCols Let_def)
    have one: "Cells ?f' (s, c) = Cells f (s, c)"
      using Cons.prems False by (auto simp: Cells_SetCellValue split: option.splits)
    have rest: "s \<noteq> sheet \<or> (\<forall>k. Suc i \<le> k \<and> k < 16 \<longrightarrow> c \<noteq> codeCols ! k @ itoa row)"
      using Cons.prems by auto
    show ?thesis unfolding step using Cons.IH [OF rest, of ?f'] one by simp
  qed
qed

lemma fillHours_cell:
  "i + j < 16 \<Longrightarrow> j < length keys \<Longrightarrow>
   Cells (fillHours hours sheet row i keys f) (sheet, codeCols ! (i + j) @ itoa row) =
     (case hours (keys ! j) of
        None \<Rightarrow> Cells f (sheet, codeCols ! (i + j) @ itoa row)
      | Some v \<Rightarrow> if v \<noteq> 0 then Some (CellFloat v)
                  else Cells f (sheet, codeCols ! (i + j) @ itoa row))"
proof (induction keys arbitrary: i j f)
  case Nil
  then show ?case by simp
next
  case (Cons key keys)
  define f' where "f' = (case hours key of None \<Rightarrow> f
              | Some v \<Rightarrow> if v \<noteq> 0
                  then SetCellValue f sheet (codeCols ! i @ itoa row) (CellFloat v) else f)"
  from Cons.prems have i: "i < 16" by simp
  then have step: "fillHours hours sheet row i (key # keys) f = fillHours hours sheet row (Suc i) keys f'"
    by (simp add: length_codeCols Let_def f'_def)
  show ?case
  proof (cases j)
    case 0
    have "\<forall>k. Suc i \<le> k \<and> k < 16 \<longrightarrow> codeCols ! i @ itoa row \<noteq> codeCols ! k @ itoa row"
      using i codeCols_inj [of i] by auto
    then have "Cells (fillHours hours sheet row (Suc i) keys f') (sheet, codeCols ! i @ itoa row) =
               Cells f' (sheet, codeCols ! i @ itoa row)"
      by (intro fillHours_frame) simp
    then show ?thesis unfolding step using 0
      by (auto simp: f'_def Cells_SetCellValue split: option.splits)
  next
    case (Suc j')
    have idx: "i + j = Suc i + j'" using Suc by simp
    have ne: "codeCols ! i \<noteq> codeCols ! (Suc i + j')"
      using Cons.prems Suc codeCols_inj [of i "Suc i + j'"] by auto
    have one: "Cells f' (sheet, codeCols ! (Suc i + j') @ itoa row) =
               Cells f (sheet, codeCols ! (Suc i + j') @ itoa row)"
      using ne by (auto simp: f'_def Cells_SetCellValue split: option.splits)
    have "Suc i + j' < 16" "j' < length keys" using Cons.prems Suc by simp_all
    from Cons.IH [OF this, of f'] have
      "Cells (fillHours hours sheet row (Suc i) keys f') (sheet, codeCols ! (Suc i + j') @ itoa row) =
        (case hours (keys ! j') of
           None \<Rightarrow> Cells f' (sheet, codeCols ! (Suc i + j') @ itoa row)
         | Some v \<Rightarrow> if v \<noteq> 0 then Some (CellFloat v)
                     else Cells f' (sheet, codeCols ! (Suc i + j') @ itoa row))" .
    then show ?thesis
      unfolding step idx one using Suc by simp
  qed
qed

text \<open>The header loop.\<close>

lemma fillHeaders_frame:
  "s \<noteq> sheet \<or> (\<forall>k. i \<le> k \<and> k < 16 \<longrightarrow> c \<noteq> codeCols ! k @ row \<and> c \<noteq> jobCols ! k @ row) \<Longrightarrow>
   Cells (fillHeaders jobMap sheet row i keys f) (s, c) = Cells f (s, c)"
proof (induction keys arbitrary: i f)
  case Nil
  show ?case by simp
next
  case (Cons key keys)
  show ?case
  proof (cases "i \<ge> 16")
    case True
    then show ?thesis by (simp add: length_codeCols)
  next
    case False
    define f' where "f' = (case jobMap (headerJobNumber key) of
                None \<Rightarrow> f
              | Some job \<Rightarrow>
                  SetCellValue (SetCellValue f sheet (codeCols ! i @ row) (CellString (headerLabel key job)))
                    sheet (jobCols ! i @ row) (CellString (headerJobNumber key)))"
    have step: "fillHeaders jobMap sheet row i (key # keys) f =
                fillHeaders jobMap sheet row (Suc i) keys f'"
      using False
      by (simp add: length_codeCols Let_def f'_def headerJobNumber_def headerLabel_def
          split: option.splits)
    have one: "Cells f' (s, c) = Cells f (s, c)"
      using Cons.prems False by (auto simp: f'_def Cells_SetCellValue split: option.splits)
    have rest: "s \<noteq> sheet \<or>
        (\<forall>k. Suc i \<le> k \<and> k < 16 \<longrightarrow> c \<noteq> codeCols ! k @ row \<and> c \<noteq> jobCols ! k @ row)"
      using Cons.prems by auto
    show ?thesis unfolding step using Cons.IH [OF rest, of f'] one by simp
  qed
qed

lemma fillHeaders_cell:
  "i + j < 16 \<Longrightarrow> j < length keys \<Longrightarrow>
   Cells (fillHeaders jobMap sheet row i keys f) (sheet, codeCols ! (i + j) @ row) =
     (case jobMap (headerJobNumber (keys ! j)) of
        None \<Rightarrow> Cells f (sheet, codeCols ! (i + j) @ row)
      | Some job \<Rightarrow> Some (CellString (headerLabel (keys ! j) job)))
   \<and> Cells (fillHeaders jobMap sheet row i keys f) (sheet, jobCols ! (i + j) @ row) =
     (case jobMap (headerJobNumber (keys ! j)) of
        None \<Rightarrow> Cells f (sheet, jobCols ! (i + j) @ row)
      | Some job \<Rightarrow> Some (CellString (headerJobNumber (keys ! j))))"
proof (induction keys arbitrary: i j f)
  case Nil
  then show ?case by simp
next
  case (Cons key keys)
  define f' where "f' = (case jobMap (headerJobNumber key) of
              None \<Rightarrow> f
            | Some job \<Rightarrow>
                SetCellValue (SetCellValue f sheet (codeCols ! i @ row) (CellString (headerLabel key job)))
                  sheet (jobCols ! i @ row) (CellString (headerJobNumber key)))"
  from Cons.prems have i: "i < 16" by simp
  then have step: "fillHeaders jobMap sheet row i (key # keys) f =
                   fillHeaders jobMap sheet row (Suc i) keys f'"
    by (simp add: length_codeCols Let_def f'_def headerJobNumber_def headerLabel_def
        split: option.splits)
  show ?case
  proof (cases j)
    case 0
    have a: "\<forall>k. Suc i \<le> k \<and> k < 16 \<longrightarrow>
               codeCols ! i @ row \<noteq> codeCols ! k @ row \<and> codeCols ! i @ row \<noteq> jobCols ! k @ row"
      using i codeCols_inj [of i] codeCols_not_jobCols [of i] by auto
    have b: "\<forall>k. Suc i \<le> k \<and> k < 16 \<longrightarrow>
               jobCols ! i @ row \<noteq> codeCols ! k @ row \<and> jobCols ! i @ row \<noteq> jobCols ! k @ row"
      using i jobCols_inj [of i] codeCols_not_jobCols [of _ i] by (auto dest: sym)
    have ca: "Cells (fillHeaders jobMap sheet row (Suc i) keys f') (sheet, codeCols ! i @ row) =
              Cells f' (sheet, codeCols ! i @ row)"
      using a by (intro fillHeaders_frame) simp
    have cb: "Cells (fillHeaders jobMap sheet row (Suc i) keys f') (sheet, jobCols ! i @ row) =
              Cells f' (sheet, jobCols ! i @ row)"
      using b by (intro fillHeaders_frame) simp
    have ne: "codeCols ! i \<noteq> jobCols ! i" using i by (simp add: codeCols_not_jobCols)
    show ?thesis unfolding step using 0 ca cb ne
      by (auto simp: f'_def Cells_SetCellValue split: option.splits)
  next
    case (Suc j')
    have idx: "i + j = Suc i + j'" using Suc by simp
    have lt: "Suc i + j' < 16" "j' < length keys" using Cons.prems Suc by simp_all
    have ne: "codeCols ! i \<noteq> codeCols ! (Suc i + j')" "jobCols ! i \<noteq> jobCols ! (Suc i + j')"
      "codeCols ! i \<noteq> jobCols ! (Suc i + j')" "jobCols ! i \<noteq> codeCols ! (Suc i + j')"
      using i lt codeCols_inj [of i "Suc i + j'"] jobCols_inj [of i "Suc i + j'"]
        codeCols_not_jobCols [of i "Suc i + j'"] codeCols_not_jobCols [of "Suc i + j'" i]
      by (auto dest: sym)
    have one: "Cells f' (sheet, codeCols ! (Suc i + j') @ row) =
               Cells f (sheet, codeCols ! (Suc i + j') @ row)"
      "Cells f' (sheet, jobCols ! (Suc i + j') @ row) =
               Cells f (sheet, jobCols ! (Suc i + j') @ row)"
      using ne by (auto simp: f'_def Cells_SetCellValue split: option.splits)
    have nth: "(key # keys) ! j = keys ! j'" using Suc by simp
    from Cons.IH [OF lt, of f'] show ?thesis
      unfolding step idx one nth by simp
  qed
qed

lemma noDigits_B: "noDigits ''B''"
  by (simp add: noDigits_def decimalDigits_def)

lemma codeCols_not_B: "k < 16 \<Longrightarrow> codeCols ! k \<noteq> ''B''"
proof -
  assume "k < 16"
  then have "codeCols ! k \<in> set codeCols" by (simp add: length_codeCols)
  moreover have "''B'' \<notin> set codeCols" by (simp add: codeCols_def)
  ultimately show ?thesis by auto
qed

lemma jobCols_not_B: "k < 16 \<Longrightarrow> jobCols ! k \<noteq> ''B''"
proof -
  assume "k < 16"
  then have "jobCols ! k \<in> set jobCols" by (simp add: length_jobCols)
  moreover have "''B'' \<notin> set jobCols" by (simp add: jobCols_def)
  ultimately show ?thesis by auto
qed

lemma fillHours_cell0:
  "j < 16 \<Longrightarrow> j < length keys \<Longrightarrow>
   Cells (fillHours hours sheet row 0 keys f) (sheet, codeCols ! j @ itoa row) =
     (case hours (keys ! j) of
        None \<Rightarrow> Cells f (sheet, codeCols ! j @ itoa row)
      | Some v \<Rightarrow> if v \<noteq> 0 then Some (CellFloat v)
                  else Cells f (sheet, codeCols ! j @ itoa row))"
  using fillHours_cell [of 0 j keys hours sheet row f] by (simp cong: option.case_cong if_cong)

lemma fillHeaders_cell0:
  "j < 16 \<Longrightarrow> j < length keys \<Longrightarrow>
   Cells (fillHeaders jobMap sheet row 0 keys f) (sheet, codeCols ! j @ row) =
     (case jobMap (headerJobNumber (keys ! j)) of
        None \<Rightarrow> Cells f (sheet, codeCols ! j @ row)
      | Some job \<Rightarrow> Some (CellString (headerLabel (keys ! j) job)))
   \<and> Cells (fillHeaders jobMap sheet row 0 keys f) (sheet, jobCols ! j @ row) =
     (case jobMap (headerJobNumber (keys ! j)) of
        None \<Rightarrow> Cells f (sheet, jobCols ! j @ row)
      | Some job \<Rightarrow> Some (CellString (headerJobNumber (keys ! j))))"
  using fillHeaders_cell [of 0 j keys jobMap sheet row f] by (simp cong: option.case_cong)

text \<open>One day: every write goes to the day's regular row or to its overtime row.\<close>

lemma fillHours_frame_row:
  "s \<noteq> sheet \<or> (\<forall>col. noDigits col \<longrightarrow> c \<noteq> col @ itoa row) \<Longrightarrow>
   Cells (fillHours hours sheet row i keys f) (s, c) = Cells f (s, c)"
  by (rule fillHours_frame) (auto simp: noDigits_codeCols)

lemma fillDay_frame:
  assumes "s \<noteq> sheet \<or>
           (\<forall>col. noDigits col \<longrightarrow> c \<noteq> col @ itoa (5 + d) \<and> c \<noteq> col @ itoa (16 + d))"
  shows "Cells (fillDay weekStart regMap otMap regularKeys overtimeKeys sheet d f) (s, c) =
         Cells f (s, c)"
proof -
  have r: "s \<noteq> sheet \<or> (\<forall>col. noDigits col \<longrightarrow> c \<noteq> col @ itoa (5 + d))"
    and ot: "s \<noteq> sheet \<or> (\<forall>col. noDigits col \<longrightarrow> c \<noteq> col @ itoa (16 + d))"
    using assms by auto
  have b: "s \<noteq> sheet \<or> (c \<noteq> ''B'' @ itoa (5 + d) \<and> c \<noteq> ''B'' @ itoa (16 + d))"
    using assms noDigits_B by blast
  show ?thesis
    using b by (auto simp: fillDay_def Let_def Cells_SetCellValue
        fillHours_frame_row [OF r] fillHours_frame_row [OF ot] split: option.splits)
qed

lemma fillDay_cell_regular:
  assumes "i < 16" and "i < length regularKeys"
  shows "Cells (fillDay weekStart regMap otMap regularKeys overtimeKeys sheet d f)
           (sheet, codeCols ! i @ itoa (5 + d)) =
         (case lookupHours regMap (formatDate (AddDate weekStart 0 0 (int d))) (regularKeys ! i) of
            None \<Rightarrow> Cells f (sheet, codeCols ! i @ itoa (5 + d))
          | Some v \<Rightarrow> if v \<noteq> 0 then Some (CellFloat v)
                      else Cells f (sheet, codeCols ! i @ itoa (5 + d)))"
proof -
  let ?c = "codeCols ! i @ itoa (5 + d)"
  have ot: "sheet \<noteq> sheet \<or> (\<forall>col. noDigits col \<longrightarrow> ?c \<noteq> col @ itoa (16 + d))"
    using assms(1) by (simp add: address_eq_iff noDigits_codeCols)
  have b: "?c \<noteq> ''B'' @ itoa (5 + d)" "?c \<noteq> ''B'' @ itoa (16 + d)"
    using assms(1) address_eq_iff [OF noDigits_codeCols noDigits_B, of i "5 + d" "5 + d"]
      address_eq_iff [OF noDigits_codeCols noDigits_B, of i "5 + d" "16 + d"]
    by (simp_all add: codeCols_not_B)
  have cell: "Cells (fillHours hours sheet (5 + d) 0 regularKeys g) (sheet, ?c) =
     (case hours (regularKeys ! i) of None \<Rightarrow> Cells g (sheet, ?c)
      | Some v \<Rightarrow> if v \<noteq> 0 then Some (CellFloat v) else Cells g (sheet, ?c))" for hours g
    using fillHours_cell0 [of i regularKeys hours sheet "5 + d" g] assms by simp
  show ?thesis
    using b by (auto simp: fillDay_def Let_def lookupHours_def Cells_SetCellValue cell
        fillHours_frame_row [OF ot] split: option.splits)
qed

lemma fillDay_cell_overtime:
  assumes "i < 16" and "i < length overtimeKeys"
  shows "Cells (fillDay weekStart regMap otMap regularKeys overtimeKeys sheet d f)
           (sheet, codeCols ! i @ itoa (16 + d)) =
         (case lookupHours otMap (formatDate (AddDate weekStart 0 0 (int d))) (overtimeKeys ! i) of
            None \<Rightarrow> Cells f (sheet, codeCols ! i @ itoa (16 + d))
          | Some v \<Rightarrow> if v \<noteq> 0 then Some (CellFloat v)
                      else Cells f (sheet, codeCols ! i @ itoa (16 + d)))"
proof -
  let ?c = "codeCols ! i @ itoa (16 + d)"
  have r: "sheet \<noteq> sheet \<or> (\<forall>col. noDigits col \<longrightarrow> ?c \<noteq> col @ itoa (5 + d))"
    using assms(1) by (simp add: address_eq_iff noDigits_codeCols)
  have b: "?c \<noteq> ''B'' @ itoa (5 + d)" "?c \<noteq> ''B'' @ itoa (16 + d)"
    using assms(1) address_eq_iff [OF noDigits_codeCols noDigits_B, of i "16 + d" "5 + d"]
      address_eq_iff [OF noDigits_codeCols noDigits_B, of i "16 + d" "16 + d"]
    by (simp_all add: codeCols_not_B)
  have cell: "Cells (fillHours hours sheet (16 + d) 0 overtimeKeys g) (sheet, ?c) =
     (case hours (overtimeKeys ! i) of None \<Rightarrow> Cells g (sheet, ?c)
      | Some v \<Rightarrow> if v \<noteq> 0 then Some (CellFloat v) else Cells g (sheet, ?c))" for hours g
    using fillHours_cell0 [of i overtimeKeys hours sheet "16 + d" g] assms by simp
  show ?thesis
    using b by (auto simp: fillDay_def Let_def lookupHours_def Cells_SetCellValue cell
        fillHours_frame_row [OF r] split: option.splits)
qed

text \<open>The loop over the days.\<close>

lemma fillDays_frame:
  "s \<noteq> sheet \<or>
   (\<forall>col d'. noDigits col \<and> d \<le> d' \<and> d' < 7 \<longrightarrow>
       c \<noteq> col @ itoa (5 + d') \<and> c \<noteq> col @ itoa (16 + d')) \<Longrightarrow>
   Cells (fillDays weekStart regMap otMap regularKeys overtimeKeys sheet d f) (s, c) =
   Cells f (s, c)"
proof (induction weekStart regMap otMap regularKeys overtimeKeys sheet d f rule: fillDays.induct)
  case (1 weekStart regMap otMap regularKeys overtimeKeys sheet d f)
  show ?case
  proof (cases "d < 7")
    case False
    then show ?thesis by (subst fillDays.simps) simp
  next
    case True
    let ?g = "fillDay weekStart regMap otMap regularKeys overtimeKeys sheet d f"
    have here: "s \<noteq> sheet \<or>
        (\<forall>col. noDigits col \<longrightarrow> c \<noteq> col @ itoa (5 + d) \<and> c \<noteq> col @ itoa (16 + d))"
      using "1.prems" True by auto
    have later: "s \<noteq> sheet \<or>
        (\<forall>col d'. noDigits col \<and> d + 1 \<le> d' \<and> d' < 7 \<longrightarrow>
            c \<noteq> col @ itoa (5 + d') \<and> c \<noteq> col @ itoa (16 + d'))"
      using "1.prems" by auto
    have "Cells (fillDays weekStart regMap otMap regularKeys overtimeKeys sheet d f) (s, c) =
          Cells (fillDays weekStart regMap otMap regularKeys overtimeKeys sheet (d + 1) ?g) (s, c)"
      using True by (subst fillDays.simps) simp
    also have "\<dots> = Cells ?g (s, c)" by (rule "1.IH" [OF True later])
    also have "\<dots> = Cells f (s, c)" by (rule fillDay_frame [OF here])
    finally show ?thesis .
  qed
qed

lemma fillDays_cell_regular:
  "d \<le> d0 \<Longrightarrow> d0 < 7 \<Longrightarrow> i < 16 \<Longrightarrow> i < length regularKeys \<Longrightarrow>
   Cells (fillDays weekStart regMap otMap regularKeys overtimeKeys sheet d f)
     (sheet, codeCols ! i @ itoa (5 + d0)) =
   (case lookupHours regMap (formatDate (AddDate weekStart 0 0 (int d0))) (regularKeys ! i) of
      None \<Rightarrow> Cells f (sheet, codeCols ! i @ itoa (5 + d0))
    | Some v \<Rightarrow> if v \<noteq> 0 then Some (CellFloat v)
                else Cells f (sheet, codeCols ! i @ itoa (5 + d0)))"
proof (induction weekStart regMap otMap regularKeys overtimeKeys sheet d f rule: fillDays.induct)
  case (1 weekStart regMap otMap regularKeys overtimeKeys sheet d f)
  let ?c = "codeCols ! i @ itoa (5 + d0)"
  let ?g = "fillDay weekStart regMap otMap regularKeys overtimeKeys sheet d f"
  from "1.prems" have d: "d < 7" by simp
  have unroll: "fillDays weekStart regMap otMap regularKeys overtimeKeys sheet d f =
                fillDays weekStart regMap otMap regularKeys overtimeKeys sheet (d + 1) ?g"
    using d by (subst fillDays.simps) simp
  have nd: "noDigits (codeCols ! i)" using "1.prems" by (simp add: noDigits_codeCols)
  show ?case
  proof (cases "d = d0")
    case True
    have later: "sheet \<noteq> sheet \<or>
        (\<forall>col d'. noDigits col \<and> d + 1 \<le> d' \<and> d' < 7 \<longrightarrow>
            ?c \<noteq> col @ itoa (5 + d') \<and> ?c \<noteq> col @ itoa (16 + d'))"
      using True "1.prems" nd by (auto simp: address_eq_iff)
    show ?thesis
      unfolding unroll fillDays_frame [OF later]
      using True "1.prems" fillDay_cell_regular [of i regularKeys weekStart regMap otMap overtimeKeys sheet d0 f]
      by simp
  next
    case False
    with "1.prems" have lt: "d + 1 \<le> d0" by simp
    have here: "sheet \<noteq> sheet \<or>
        (\<forall>col. noDigits col \<longrightarrow> ?c \<noteq> col @ itoa (5 + d) \<and> ?c \<noteq> col @ itoa (16 + d))"
      using False "1.prems" nd by (auto simp: address_eq_iff)
    have same: "Cells ?g (sheet, ?c) = Cells f (sheet, ?c)" by (rule fillDay_frame [OF here])
    show ?thesis
      unfolding unroll using "1.IH" [OF d lt "1.prems"(2,3,4)] unfolding same .
  qed
qed

lemma fillDays_cell_overtime:
  "d \<le> d0 \<Longrightarrow> d0 < 7 \<Longrightarrow> i < 16 \<Longrightarrow> i < length overtimeKeys \<Longrightarrow>
   Cells (fillDays weekStart regMap otMap regularKeys overtimeKeys sheet d f)
     (sheet, codeCols ! i @ itoa (16 + d0)) =
   (case lookupHours otMap (formatDate (AddDate weekStart 0 0 (int d0))) (overtimeKeys ! i) of
      None \<Rightarrow> Cells f (sheet, codeCols ! i @ itoa (16 + d0))
    | Some v \<Rightarrow> if v \<noteq> 0 then Some (CellFloat v)
                else Cells f (sheet, codeCols ! i @ itoa (16 + d0)))"
proof (induction weekStart regMap otMap regularKeys overtimeKeys sheet d f rule: fillDays.induct)
  case (1 weekStart regMap otMap regularKeys overtimeKeys sheet d f)
  let ?c = "codeCols ! i @ itoa (16 + d0)"
  let ?g = "fillDay weekStart regMap otMap regularKeys overtimeKeys sheet d f"
  from "1.prems" have d: "d < 7" by simp
  have unroll: "fillDays weekStart regMap otMap regularKeys overtimeKeys sheet d f =
                fillDays weekStart regMap otMap regularKeys overtimeKeys sheet (d + 1) ?g"
    using d by (subst fillDays.simps) simp
  have nd: "noDigits (codeCols ! i)" using "1.prems" by (simp add: noDigits_codeCols)
  show ?case
  proof (cases "d = d0")
    case True
    have later: "sheet \<noteq> sheet \<or>
        (\<forall>col d'. noDigits col \<and> d + 1 \<le> d' \<and> d' < 7 \<longrightarrow>
            ?c \<noteq> col @ itoa (5 + d') \<and> ?c \<noteq> col @ itoa (16 + d'))"
      using True "1.prems" nd by (auto simp: address_eq_iff)
    show ?thesis
      unfolding unroll fillDays_frame [OF later]
      using True "1.prems" fillDay_cell_overtime [of i overtimeKeys weekStart regMap otMap regularKeys sheet d0 f]
      by simp
  next
    case False
    with "1.prems" have lt: "d + 1 \<le> d0" by simp
    have here: "sheet \<noteq> sheet \<or>
        (\<forall>col. noDigits col \<longrightarrow> ?c \<noteq> col @ itoa (5 + d) \<and> ?c \<noteq> col @ itoa (16 + d))"
      using False "1.prems" nd by (auto simp: address_eq_iff)
    have same: "Cells ?g (sheet, ?c) = Cells f (sheet, ?c)" by (rule fillDay_frame [OF here])
    show ?thesis
      unfolding unroll using "1.IH" [OF d lt "1.prems"(2,3,4)] unfolding same .
  qed
qed

lemma row_4: "''4'' = itoa 4"
  by (simp add: itoa.simps digitChar_def decimalDigits_def)

lemma row_15: "''15'' = itoa 15"
  by (simp add: itoa.simps digitChar_def decimalDigits_def)

lemma fillHeaders_frame_row:
  "s \<noteq> sheet \<or> (\<forall>col. noDigits col \<longrightarrow> c \<noteq> col @ row) \<Longrightarrow>
   Cells (fillHeaders jobMap sheet row i keys f) (s, c) = Cells f (s, c)"
  by (rule fillHeaders_frame) (auto simp: noDigits_codeCols noDigits_jobCols)

text \<open>Everything \<^verbatim>\<open>fillWeekSheet\<close> writes after the five cells of the sheet's heading goes to
  the rows 4 to 11 and 15 to 22 of its sheet.\<close>

lemma blocks_frame:
  assumes "s \<noteq> sheet \<or>
           (\<forall>col r. noDigits col \<and> ((4 \<le> r \<and> r \<le> 11) \<or> (15 \<le> r \<and> r \<le> 22)) \<longrightarrow> c \<noteq> col @ itoa r)"
  shows "Cells (fillDays weekStart regMap otMap regularKeys overtimeKeys sheet 0
                  (fillHeaders jobMap sheet ''15'' 0 overtimeKeys
                     (fillHeaders jobMap sheet ''4'' 0 regularKeys g))) (s, c) =
         Cells g (s, c)"
proof -
  have days: "s \<noteq> sheet \<or>
     (\<forall>col d'. noDigits col \<and> 0 \<le> d' \<and> d' < 7 \<longrightarrow>
         c \<noteq> col @ itoa (5 + d') \<and> c \<noteq> col @ itoa (16 + d'))"
    using assms by auto
  have r15: "s \<noteq> sheet \<or> (\<forall>col. noDigits col \<longrightarrow> c \<noteq> col @ ''15'')"
    unfolding row_15 using assms by auto
  have r4: "s \<noteq> sheet \<or> (\<forall>col. noDigits col \<longrightarrow> c \<noteq> col @ ''4'')"
    unfolding row_4 using assms by auto
  show ?thesis
    by (simp only: fillDays_frame [OF days] fillHeaders_frame_row [OF r15]
        fillHeaders_frame_row [OF r4])
qed

lemma Cells_applyBorders:
  "(case applyBordersToRange f sheet a b of Inl err \<Rightarrow> f | Inr g \<Rightarrow> g) =
     f\<lparr>Borders := Borders f @ [(sheet, a, b)]\<rparr>"
  by (simp add: applyBordersToRange_def)

lemma fillHeaders_guard:
  "(if length keys > 0 then fillHeaders jobMap sheet row 0 keys f else f) =
     fillHeaders jobMap sheet row 0 keys f"
  by (cases keys) simp_all

lemma fillWeekSheet_None:
  "parse (WeekData.WeekStartDate week) = None \<Longrightarrow>
   fillWeekSheet parse f sheet req week weekNum = Inl ParseWeekStart"
  by (simp add: fillWeekSheet_def)

lemma fillWeekSheet_Some:
  assumes "parse (WeekData.WeekStartDate week) = Some weekStart"
  shows "\<exists>f'. fillWeekSheet parse f sheet req week weekNum = Inr f' \<and>
          Cells f' =
          Cells (fillDays weekStart
                   (fst (aggregate parse (WeekData.Entries week) (\<lambda>_. None, \<lambda>_. None)))
                   (snd (aggregate parse (WeekData.Entries week) (\<lambda>_. None, \<lambda>_. None)))
                   (getUniqueJobNumbersForType (WeekData.Entries week) False)
                   (getUniqueJobNumbersForType (WeekData.Entries week) True) sheet 0
                   (fillHeaders (buildJobMap (Jobs req)) sheet ''15'' 0
                      (getUniqueJobNumbersForType (WeekData.Entries week) True)
                      (fillHeaders (buildJobMap (Jobs req)) sheet ''4'' 0
                         (getUniqueJobNumbersForType (WeekData.Entries week) False)
                         (weekInfo f sheet req week weekStart))))"
  unfolding fillWeekSheet_def Let_def fillHeaders_guard Cells_applyBorders weekInfo_def
  using assms by simp

lemma lit_M2: "''M2'' = ''M'' @ itoa 2"
  by (simp add: itoa.simps digitChar_def decimalDigits_def)
lemma lit_AJ2: "''AJ2'' = ''AJ'' @ itoa 2"
  by (simp add: itoa.simps digitChar_def decimalDigits_def)
lemma lit_AJ3: "''AJ3'' = ''AJ'' @ itoa 3"
  by (simp add: itoa.simps digitChar_def decimalDigits_def)
lemma lit_B4: "''B4'' = ''B'' @ itoa 4"
  by (simp add: itoa.simps digitChar_def decimalDigits_def)
lemma lit_AJ4: "''AJ4'' = ''AJ'' @ itoa 4"
  by (simp add: itoa.simps digitChar_def decimalDigits_def)

lemma noDigits_M: "noDigits ''M''"
  by (simp add: noDigits_def decimalDigits_def)
lemma noDigits_AJ: "noDigits ''AJ''"
  by (simp add: noDigits_def decimalDigits_def)

lemma Cells_weekInfo_other:
  "s \<noteq> sheet \<or> c \<notin> infoCells \<Longrightarrow>
   Cells (weekInfo f sheet req week weekStart) (s, c) = Cells f (s, c)"
  by (auto simp: weekInfo_def Cells_SetCellValue infoCells_def)

lemma Cells_weekInfo_M2:
  "Cells (weekInfo f sheet req week weekStart) (sheet, ''M2'') =
     Some (CellString (EmployeeName req))"
  by (simp add: weekInfo_def Cells_SetCellValue)

lemma address_neq_row:
  "noDigits a \<Longrightarrow> noDigits b \<Longrightarrow> r \<noteq> r' \<Longrightarrow> a @ itoa r \<noteq> b @ itoa r'"
  by (simp add: address_eq_iff)

lemma address_neq_col:
  "noDigits a \<Longrightarrow> noDigits b \<Longrightarrow> a \<noteq> b \<Longrightarrow> a @ itoa r \<noteq> b @ itoa r'"
  by (simp add: address_eq_iff)

lemma data_not_info: "noDigits col \<Longrightarrow> 5 \<le> r \<Longrightarrow> col @ itoa r \<notin> infoCells"
  unfolding infoCells_def lit_M2 lit_AJ2 lit_AJ3 lit_B4 lit_AJ4
  using address_neq_row [of col "''M''" r 2] address_neq_row [of col "''AJ''" r 2]
    address_neq_row [of col "''AJ''" r 3] address_neq_row [of col "''B''" r 4]
    address_neq_row [of col "''AJ''" r 4] noDigits_M noDigits_AJ noDigits_B
  by simp

lemma cols_not_B_AJ: "col \<in> set (codeCols @ jobCols) \<Longrightarrow> col \<noteq> ''B'' \<and> col \<noteq> ''AJ''"
  by (auto simp: codeCols_def jobCols_def)

lemma header4_not_info:
  "col \<in> set (codeCols @ jobCols) \<Longrightarrow> col @ itoa 4 \<notin> infoCells"
proof -
  assume c: "col \<in> set (codeCols @ jobCols)"
  then have nd: "noDigits col" using noDigits_all_cols by blast
  from c have ne: "col \<noteq> ''B''" "col \<noteq> ''AJ''" using cols_not_B_AJ by blast+
  show ?thesis
    unfolding infoCells_def lit_M2 lit_AJ2 lit_AJ3 lit_B4 lit_AJ4
    using address_neq_row [OF nd noDigits_M, of 4 2] address_neq_row [OF nd noDigits_AJ, of 4 2]
      address_neq_row [OF nd noDigits_AJ, of 4 3] address_neq_col [OF nd noDigits_B ne(1), of 4 4]
      address_neq_col [OF nd noDigits_AJ ne(2), of 4 4]
    by simp
qed

lemma M2_not_blocks:
  "noDigits col \<and> ((4 \<le> r \<and> r \<le> 11) \<or> (15 \<le> r \<and> r \<le> 22)) \<longrightarrow> ''M2'' \<noteq> col @ itoa r"
  unfolding lit_M2 using address_neq_row [OF noDigits_M, of col 2 r] by auto

lemma headers_frame_data:
  assumes "noDigits col" and "5 \<le> r" and "r \<noteq> 15"
  shows "Cells (fillHeaders jobMap sheet ''15'' 0 overtimeKeys
                  (fillHeaders jobMap sheet ''4'' 0 regularKeys g)) (s, col @ itoa r) =
         Cells g (s, col @ itoa r)"
proof -
  have r15: "s \<noteq> sheet \<or> (\<forall>c. noDigits c \<longrightarrow> col @ itoa r \<noteq> c @ ''15'')"
    unfolding row_15 using assms by (simp add: address_eq_iff)
  have r4: "s \<noteq> sheet \<or> (\<forall>c. noDigits c \<longrightarrow> col @ itoa r \<noteq> c @ ''4'')"
    unfolding row_4 using assms by (simp add: address_eq_iff)
  show ?thesis
    by (simp only: fillHeaders_frame_row [OF r15] fillHeaders_frame_row [OF r4])
qed

lemma blocks_data_regular:
  assumes "d < 7" and "i < 16" and "i < length regularKeys"
  shows "Cells (fillDays weekStart regMap otMap regularKeys overtimeKeys sheet 0
                  (fillHeaders jobMap sheet ''15'' 0 overtimeKeys
                     (fillHeaders jobMap sheet ''4'' 0 regularKeys g)))
           (sheet, codeCols ! i @ itoa (5 + d)) =
         (case lookupHours regMap (formatDate (AddDate weekStart 0 0 (int d))) (regularKeys ! i) of
            None \<Rightarrow> Cells g (sheet, codeCols ! i @ itoa (5 + d))
          | Some v \<Rightarrow> if v \<noteq> 0 then Some (CellFloat v)
                      else Cells g (sheet, codeCols ! i @ itoa (5 + d)))"
proof -
  have h: "Cells (fillHeaders jobMap sheet ''15'' 0 overtimeKeys
                  (fillHeaders jobMap sheet ''4'' 0 regularKeys g)) (sheet, codeCols ! i @ itoa (5 + d)) =
           Cells g (sheet, codeCols ! i @ itoa (5 + d))"
    using assms by (intro headers_frame_data) (simp_all add: noDigits_codeCols)
  show ?thesis
    using fillDays_cell_regular [of 0 d i regularKeys weekStart regMap otMap overtimeKeys sheet
        "fillHeaders jobMap sheet ''15'' 0 overtimeKeys
           (fillHeaders jobMap sheet ''4'' 0 regularKeys g)"] assms
    unfolding h by simp
qed

lemma blocks_data_overtime:
  assumes "d < 7" and "i < 16" and "i < length overtimeKeys"
  shows "Cells (fillDays weekStart regMap otMap regularKeys overtimeKeys sheet 0
                  (fillHeaders jobMap sheet ''15'' 0 overtimeKeys
                     (fillHeaders jobMap sheet ''4'' 0 regularKeys g)))
           (sheet, codeCols ! i @ itoa (16 + d)) =
         (case lookupHours otMap (formatDate (AddDate weekStart 0 0 (int d))) (overtimeKeys ! i) of
            None \<Rightarrow> Cells g (sheet, codeCols ! i @ itoa (16 + d))
          | Some v \<Rightarrow> if v \<noteq> 0 then Some (CellFloat v)
                      else Cells g (sheet, codeCols ! i @ itoa (16 + d)))"
proof -
  have h: "Cells (fillHeaders jobMap sheet ''15'' 0 overtimeKeys
                  (fillHeaders jobMap sheet ''4'' 0 regularKeys g)) (sheet, codeCols ! i @ itoa (16 + d)) =
           Cells g (sheet, codeCols ! i @ itoa (16 + d))"
    using assms by (intro headers_frame_data) (simp_all add: noDigits_codeCols)
  show ?thesis
    using fillDays_cell_overtime [of 0 d i overtimeKeys weekStart regMap otMap regularKeys sheet
        "fillHeaders jobMap sheet ''15'' 0 overtimeKeys
           (fillHeaders jobMap sheet ''4'' 0 regularKeys g)"] assms
    unfolding h by simp
qed

lemma days_frame_header:
  assumes "noDigits col" and "r = 4 \<or> r = 15"
  shows "Cells (fillDays weekStart regMap otMap regularKeys overtimeKeys sheet 0 g) (s, col @ itoa r) =
         Cells g (s, col @ itoa r)"
proof -
  have "s \<noteq> sheet \<or>
     (\<forall>c d'. noDigits c \<and> 0 \<le> d' \<and> d' < 7 \<longrightarrow>
         col @ itoa r \<noteq> c @ itoa (5 + d') \<and> col @ itoa r \<noteq> c @ itoa (16 + d'))"
    using assms by (auto simp: address_eq_iff)
  then show ?thesis by (rule fillDays_frame)
qed

lemma blocks_header_regular:
  assumes "i < 16" and "i < length regularKeys"
  shows "Cells (fillDays weekStart regMap otMap regularKeys overtimeKeys sheet 0
                  (fillHeaders jobMap sheet ''15'' 0 overtimeKeys
                     (fillHeaders jobMap sheet ''4'' 0 regularKeys g)))
           (sheet, codeCols ! i @ ''4'') =
         (case jobMap (headerJobNumber (regularKeys ! i)) of
            None \<Rightarrow> Cells g (sheet, codeCols ! i @ ''4'')
          | Some job \<Rightarrow> Some (CellString (headerLabel (regularKeys ! i) job)))
       \<and> Cells (fillDays weekStart regMap otMap regularKeys overtimeKeys sheet 0
                  (fillHeaders jobMap sheet ''15'' 0 overtimeKeys
                     (fillHeaders jobMap sheet ''4'' 0 regularKeys g)))
           (sheet, jobCols ! i @ ''4'') =
         (case jobMap (headerJobNumber (regularKeys ! i)) of
            None \<Rightarrow> Cells g (sheet, jobCols ! i @ ''4'')
          | Some job \<Rightarrow> Some (CellString (headerJobNumber (regularKeys ! i))))"
proof -
  let ?h = "fillHeaders jobMap sheet ''4'' 0 regularKeys g"
  have nd: "noDigits (codeCols ! i)" "noDigits (jobCols ! i)"
    using assms by (simp_all add: noDigits_codeCols noDigits_jobCols)
  have r15: "sheet \<noteq> sheet \<or> (\<forall>c. noDigits c \<longrightarrow> col @ ''4'' \<noteq> c @ ''15'')" if "noDigits col" for col
    unfolding row_15 row_4 using that by (simp add: address_eq_iff)
  have outer: "Cells (fillHeaders jobMap sheet ''15'' 0 overtimeKeys ?h) (sheet, codeCols ! i @ ''4'') =
               Cells ?h (sheet, codeCols ! i @ ''4'')"
    "Cells (fillHeaders jobMap sheet ''15'' 0 overtimeKeys ?h) (sheet, jobCols ! i @ ''4'') =
               Cells ?h (sheet, jobCols ! i @ ''4'')"
    by (simp_all only: fillHeaders_frame_row [OF r15 [OF nd(1)]] fillHeaders_frame_row [OF r15 [OF nd(2)]])
  have days: "Cells (fillDays weekStart regMap otMap regularKeys overtimeKeys sheet 0 k) (sheet, col @ ''4'') =
              Cells k (sheet, col @ ''4'')" if "noDigits col" for col k
    unfolding row_4 using that by (intro days_frame_header) simp_all
  show ?thesis
    using fillHeaders_cell0 [of i regularKeys jobMap sheet "''4''" g] assms
    unfolding days [OF nd(1)] days [OF nd(2)] outer by simp
qed

lemma blocks_header_overtime:
  assumes "i < 16" and "i < length overtimeKeys"
  shows "Cells (fillDays weekStart regMap otMap regularKeys overtimeKeys sheet 0
                  (fillHeaders jobMap sheet ''15'' 0 overtimeKeys
                     (fillHeaders jobMap sheet ''4'' 0 regularKeys g)))
           (sheet, codeCols ! i @ ''15'') =
         (case jobMap (headerJobNumber (overtimeKeys ! i)) of
            None \<Rightarrow> Cells g (sheet, codeCols ! i @ ''15'')
          | Some job \<Rightarrow> Some (CellString (headerLabel (overtimeKeys ! i) job)))
       \<and> Cells (fillDays weekStart regMap otMap regularKeys overtimeKeys sheet 0
                  (fillHeaders jobMap sheet ''15'' 0 overtimeKeys
                     (fillHeaders jobMap sheet ''4'' 0 regularKeys g)))
           (sheet, jobCols ! i @ ''15'') =
         (case jobMap (headerJobNumber (overtimeKeys ! i)) of
            None \<Rightarrow> Cells g (sheet, jobCols ! i @ ''15'')
          | Some job \<Rightarrow> Some (CellString (headerJobNumber (overtimeKeys ! i))))"
proof -
  let ?h = "fillHeaders jobMap sheet ''4'' 0 regularKeys g"
  have nd: "noDigits (codeCols ! i)" "noDigits (jobCols ! i)"
    using assms by (simp_all add: noDigits_codeCols noDigits_jobCols)
  have r4: "sheet \<noteq> sheet \<or> (\<forall>c. noDigits c \<longrightarrow> col @ ''15'' \<noteq> c @ ''4'')" if "noDigits col" for col
    unfolding row_15 row_4 using that by (simp add: address_eq_iff)
  have inner: "Cells ?h (sheet, codeCols ! i @ ''15'') = Cells g (sheet, codeCols ! i @ ''15'')"
    "Cells ?h (sheet, jobCols ! i @ ''15'') = Cells g (sheet, jobCols ! i @ ''15'')"
    by (simp_all only: fillHeaders_frame_row [OF r4 [OF nd(1)]] fillHeaders_frame_row [OF r4 [OF nd(2)]])
  have days: "Cells (fillDays weekStart regMap otMap regularKeys overtimeKeys sheet 0 k) (sheet, col @ ''15'') =
              Cells k (sheet, col @ ''15'')" if "noDigits col" for col k
    unfolding row_15 using that by (intro days_frame_header) simp_all
  show ?thesis
    using fillHeaders_cell0 [of i overtimeKeys jobMap sheet "''15''" ?h] assms
    unfolding days [OF nd(1)] days [OF nd(2)] inner by simp
qed

lemma header15_not_info:
  "noDigits col \<Longrightarrow> col @ itoa 15 \<notin> infoCells"
  by (rule data_not_info) simp_all

lemma buildJobMap_foldl:
  "foldl (\<lambda>m j. m(Job.JobCode j \<mapsto> j)) m0 jobs k = None \<longleftrightarrow>
     m0 k = None \<and> k \<notin> Job.JobCode ` set jobs"
  by (induction jobs arbitrary: m0) auto

lemma buildJobMap_None: "buildJobMap jobs k = None \<longleftrightarrow> (\<forall>j \<in> set jobs. Job.JobCode j \<noteq> k)"
  unfolding buildJobMap_def buildJobMap_foldl by auto

text \<open>The cells of the sheet after \<^verbatim>\<open>fillWeekSheet\<close>: other sheets, the employee name, the
  header cells and the data cells of both blocks.\<close>

lemma fillWeekSheet_cells:
  fixes req :: TimecardRequest and week :: WeekData
  assumes "parse (WeekData.WeekStartDate week) = Some weekStart"
  defines "regMap \<equiv> fst (aggregate parse (WeekData.Entries week) (\<lambda>_. None, \<lambda>_. None))"
    and "otMap \<equiv> snd (aggregate parse (WeekData.Entries week) (\<lambda>_. None, \<lambda>_. None))"
    and "regularKeys \<equiv> getUniqueJobNumbersForType (WeekData.Entries week) False"
    and "overtimeKeys \<equiv> getUniqueJobNumbersForType (WeekData.Entries week) True"
    and "jobMap \<equiv> buildJobMap (Jobs req)"
  shows "\<exists>f'. fillWeekSheet parse f sheet req week weekNum = Inr f'
     \<and> (\<forall>s c. s \<noteq> sheet \<longrightarrow> Cells f' (s, c) = Cells f (s, c))
     \<and> Cells f' (sheet, ''M2'') = Some (CellString (EmployeeName req))
     \<and> (\<forall>i. i < 16 \<and> i < length regularKeys \<longrightarrow>
          Cells f' (sheet, codeCols ! i @ ''4'') =
            (case jobMap (headerJobNumber (regularKeys ! i)) of
               None \<Rightarrow> Cells f (sheet, codeCols ! i @ ''4'')
             | Some job \<Rightarrow> Some (CellString (headerLabel (regularKeys ! i) job)))
        \<and> Cells f' (sheet, jobCols ! i @ ''4'') =
            (case jobMap (headerJobNumber (regularKeys ! i)) of
               None \<Rightarrow> Cells f (sheet, jobCols ! i @ ''4'')
             | Some job \<Rightarrow> Some (CellString (headerJobNumber (regularKeys ! i)))))
     \<and> (\<forall>i. i < 16 \<and> i < length overtimeKeys \<longrightarrow>
          Cells f' (sheet, codeCols ! i @ ''15'') =
            (case jobMap (headerJobNumber (overtimeKeys ! i)) of
               None \<Rightarrow> Cells f (sheet, codeCols ! i @ ''15'')
             | Some job \<Rightarrow> Some (CellString (headerLabel (overtimeKeys ! i) job)))
        \<and> Cells f' (sheet, jobCols ! i @ ''15'') =
            (case jobMap (headerJobNumber (overtimeKeys ! i)) of
               None \<Rightarrow> Cells f (sheet, jobCols ! i @ ''15'')
             | Some job \<Rightarrow> Some (CellString (headerJobNumber (overtimeKeys ! i)))))
     \<and> (\<forall>i d. d < 7 \<and> i < 16 \<and> i < length regularKeys \<longrightarrow>
          Cells f' (sheet, codeCols ! i @ itoa (5 + d)) =
            (case lookupHours regMap (formatDate (AddDate weekStart 0 0 (int d))) (regularKeys ! i) of
               None \<Rightarrow> Cells f (sheet, codeCols ! i @ itoa (5 + d))
             | Some v \<Rightarrow> if v \<noteq> 0 then Some (CellFloat v)
                         else Cells f (sheet, codeCols ! i @ itoa (5 + d))))
     \<and> (\<forall>i d. d < 7 \<and> i < 16 \<and> i < length overtimeKeys \<longrightarrow>
          Cells f' (sheet, codeCols ! i @ itoa (16 + d)) =
            (case lookupHours otMap (formatDate (AddDate weekStart 0 0 (int d))) (overtimeKeys ! i) of
               None \<Rightarrow> Cells f (sheet, codeCols ! i @ itoa (16 + d))
             | Some v \<Rightarrow> if v \<noteq> 0 then Some (CellFloat v)
                         else Cells f (sheet, codeCols ! i @ itoa (16 + d))))"
proof -
  let ?g = "weekInfo f sheet req week weekStart"
  let ?w = "fillDays weekStart regMap otMap regularKeys overtimeKeys sheet 0
              (fillHeaders jobMap sheet ''15'' 0 overtimeKeys
                 (fillHeaders jobMap sheet ''4'' 0 regularKeys ?g))"
  obtain f' where f': "fillWeekSheet parse f sheet req week weekNum = Inr f'"
    and cells: "Cells f' = Cells ?w"
    using fillWeekSheet_Some [where parse = parse and week = week and weekStart = weekStart
        and f = f and sheet = sheet and req = req and weekNum = weekNum, OF assms(1)]
    unfolding regMap_def otMap_def regularKeys_def overtimeKeys_def jobMap_def by blast
  have other: "Cells ?w (s, c) = Cells f (s, c)" if "s \<noteq> sheet" for s c
    using that by (simp add: blocks_frame Cells_weekInfo_other)
  have m2: "Cells ?w (sheet, ''M2'') = Some (CellString (EmployeeName req))"
  proof -
    have "Cells ?w (sheet, ''M2'') = Cells ?g (sheet, ''M2'')"
      by (rule blocks_frame) (use M2_not_blocks in blast)
    then show ?thesis by (simp only: Cells_weekInfo_M2)
  qed
  have info4: "Cells ?g (sheet, col @ ''4'') = Cells f (sheet, col @ ''4'')"
    if "col \<in> set (codeCols @ jobCols)" for col
    unfolding row_4 using header4_not_info [OF that] by (intro Cells_weekInfo_other) simp
  have info15: "Cells ?g (sheet, col @ ''15'') = Cells f (sheet, col @ ''15'')"
    if "noDigits col" for col
    unfolding row_15 using header15_not_info [OF that] by (intro Cells_weekInfo_other) simp
  have infod: "Cells ?g (sheet, col @ itoa r) = Cells f (sheet, col @ itoa r)"
    if "noDigits col" "5 \<le> r" for col r
    using data_not_info [OF that] by (intro Cells_weekInfo_other) simp
  have mem: "codeCols ! i \<in> set (codeCols @ jobCols)" "jobCols ! i \<in> set (codeCols @ jobCols)"
    if "i < 16" for i
    using that by (simp_all add: length_codeCols length_jobCols)
  have hreg: "Cells ?w (sheet, codeCols ! i @ ''4'') =
            (case jobMap (headerJobNumber (regularKeys ! i)) of
               None \<Rightarrow> Cells f (sheet, codeCols ! i @ ''4'')
             | Some job \<Rightarrow> Some (CellString (headerLabel (regularKeys ! i) job)))
        \<and> Cells ?w (sheet, jobCols ! i @ ''4'') =
            (case jobMap (headerJobNumber (regularKeys ! i)) of
               None \<Rightarrow> Cells f (sheet, jobCols ! i @ ''4'')
             | Some job \<Rightarrow> Some (CellString (headerJobNumber (regularKeys ! i))))"
    if "i < 16" "i < length regularKeys" for i
    using blocks_header_regular [OF that, of weekStart regMap otMap overtimeKeys sheet jobMap ?g]
    unfolding info4 [OF mem(1) [OF that(1)]] info4 [OF mem(2) [OF that(1)]] .
  have hot: "Cells ?w (sheet, codeCols ! i @ ''15'') =
            (case jobMap (headerJobNumber (overtimeKeys ! i)) of
               None \<Rightarrow> Cells f (sheet, codeCols ! i @ ''15'')
             | Some job \<Rightarrow> Some (CellString (headerLabel (overtimeKeys ! i) job)))
        \<and> Cells ?w (sheet, jobCols ! i @ ''15'') =
            (case jobMap (headerJobNumber (overtimeKeys ! i)) of
               None \<Rightarrow> Cells f (sheet, jobCols ! i @ ''15'')
             | Some job \<Rightarrow> Some (CellString (headerJobNumber (overtimeKeys ! i))))"
    if "i < 16" "i < length overtimeKeys" for i
    using blocks_header_overtime [OF that, of weekStart regMap otMap regularKeys sheet jobMap ?g]
    unfolding info15 [OF noDigits_codeCols [OF that(1)]] info15 [OF noDigits_jobCols [OF that(1)]] .
  have dreg: "Cells ?w (sheet, codeCols ! i @ itoa (5 + d)) =
            (case lookupHours regMap (formatDate (AddDate weekStart 0 0 (int d))) (regularKeys ! i) of
               None \<Rightarrow> Cells f (sheet, codeCols ! i @ itoa (5 + d))
             | Some v \<Rightarrow> if v \<noteq> 0 then Some (CellFloat v)
                         else Cells f (sheet, codeCols ! i @ itoa (5 + d)))"
    if "d < 7" "i < 16" "i < length regularKeys" for i d
    using blocks_data_regular [OF that, of weekStart regMap otMap overtimeKeys sheet jobMap ?g]
    unfolding infod [OF noDigits_codeCols [OF that(2)], of "5 + d", simplified] .
  have dot: "Cells ?w (sheet, codeCols ! i @ itoa (16 + d)) =
            (case lookupHours otMap (formatDate (AddDate weekStart 0 0 (int d))) (overtimeKeys ! i) of
               None \<Rightarrow> Cells f (sheet, codeCols ! i @ itoa (16 + d))
             | Some v \<Rightarrow> if v \<noteq> 0 then Some (CellFloat v)
                         else Cells f (sheet, codeCols ! i @ itoa (16 + d)))"
    if "d < 7" "i < 16" "i < length overtimeKeys" for i d
    using blocks_data_overtime [OF that, of weekStart regMap otMap regularKeys sheet jobMap ?g]
    unfolding infod [OF noDigits_codeCols [OF that(2)], of "16 + d", simplified] .
  show ?thesis
  proof (intro exI [of _ f'] conjI allI impI)
    show "fillWeekSheet parse f sheet req week weekNum = Inr f'" by (rule f')
  next
    fix s c assume "s \<noteq> sheet"
    then show "Cells f' (s, c) = Cells f (s, c)" unfolding cells by (rule other)
  qed (simp_all only: cells m2 hreg hot dreg dot)
qed

end
